theory Spec2Isabelle
  imports Complex_Main
begin

section \<open>Data model (types.ts)\<close>

text \<open>
  The enum \<^verbatim>\<open>Agent\<close> of types.ts, in its declaration order. Each member's value is the
  string of its own name; \<open>agent_name\<close> gives it, for the template strings of the log.
\<close>

datatype Agent =
    SUPERVISOR
  | CURRICULUM_PLANNER
  | CONCEPT_EXPLAINER
  | QUIZ_GENERATOR
  | FEEDBACK_ANALYZER
  | MOTIVATOR
  | QUALITY_REVIEWER
  | HUMAN_APPROVAL
  | END

fun agent_name :: "Agent \<Rightarrow> string" where
  "agent_name SUPERVISOR = ''SUPERVISOR''"
| "agent_name CURRICULUM_PLANNER = ''CURRICULUM_PLANNER''"
| "agent_name CONCEPT_EXPLAINER = ''CONCEPT_EXPLAINER''"
| "agent_name QUIZ_GENERATOR = ''QUIZ_GENERATOR''"
| "agent_name FEEDBACK_ANALYZER = ''FEEDBACK_ANALYZER''"
| "agent_name MOTIVATOR = ''MOTIVATOR''"
| "agent_name QUALITY_REVIEWER = ''QUALITY_REVIEWER''"
| "agent_name HUMAN_APPROVAL = ''HUMAN_APPROVAL''"
| "agent_name END = ''END''"

text \<open>
  The interface \<^verbatim>\<open>SharedState\<close>. A field of type \<^verbatim>\<open>string | null\<close> is a
  \<open>string option\<close> with \<open>None\<close> for \<^verbatim>\<open>null\<close>; \<^verbatim>\<open>boolean | null\<close> is a \<open>bool option\<close>.
  \<open>turnCount\<close> and \<open>maxTurns\<close> are JavaScript numbers that the program only ever
  initialises to \<open>0\<close> and \<open>15\<close> and increments by one: they are natural numbers here.
  \<open>confidence\<close> is a JavaScript number read from JSON and only ever compared with
  \<open>0.8\<close>: it is a real number here (no NaN, no rounding).
\<close>

record SharedState =
  topic :: string
  difficulty :: string
  lessonPlan :: "string option"
  explanation :: "string option"
  quiz :: "string option"
  studentAnswers :: "string option"
  feedback :: "string option"
  motivatorMessage :: "string option"
  reviewerApproved :: "bool option"
  reviewerComments :: "string option"
  confidence :: real
  turnCount :: nat
  maxTurns :: nat

text \<open>
  The interface \<^verbatim>\<open>LogEntry\<close>. Its \<^verbatim>\<open>id\<close> (from \<^verbatim>\<open>Math.random\<close>) and \<^verbatim>\<open>timestamp\<close>
  (from \<^verbatim>\<open>new Date()\<close>) are read by the rendering only and are left out.
\<close>

datatype LogType = Decision | Output | Error | Status

record LogEntry =
  agent :: Agent
  content :: string
  entry_type :: LogType
  reason :: "string option"

section \<open>The selector (determineNextAgent)\<close>

text \<open>
  JavaScript truthiness of a \<^verbatim>\<open>string | null\<close> (or \<^verbatim>\<open>string | undefined\<close>) value:
  \<^verbatim>\<open>null\<close> and the empty string are falsy, every other string is truthy. The source tests
  the artifact fields with \<^verbatim>\<open>!s.lessonPlan\<close>, \<^verbatim>\<open>s.quiz && ...\<close> and so on.
\<close>

fun truthy :: "string option \<Rightarrow> bool" where
  "truthy None = False"
| "truthy (Some s) = (s \<noteq> [])"

text \<open>
  The rules of \<^verbatim>\<open>determineNextAgent\<close>, in the source's order. \<^verbatim>\<open>s.reviewerApproved\<close> as a
  condition is truthy exactly for \<^verbatim>\<open>true\<close>; \<^verbatim>\<open>=== null\<close> and \<^verbatim>\<open>=== false\<close> are the
  two other values of the field.
\<close>

definition determineNextAgent :: "SharedState \<Rightarrow> Agent" where
  "determineNextAgent s =
    (if turnCount s \<ge> maxTurns s then END
     else if \<not> truthy (lessonPlan s) then CURRICULUM_PLANNER
     else if \<not> truthy (explanation s) then CONCEPT_EXPLAINER
     else if \<not> truthy (quiz s) then QUIZ_GENERATOR
     else if truthy (quiz s) \<and> \<not> truthy (studentAnswers s) then HUMAN_APPROVAL
     else if truthy (studentAnswers s) \<and> \<not> truthy (feedback s) then FEEDBACK_ANALYZER
     else if truthy (feedback s) \<and> \<not> truthy (motivatorMessage s) then MOTIVATOR
     else if truthy (motivatorMessage s) \<and> reviewerApproved s = None then QUALITY_REVIEWER
     else if reviewerApproved s = Some True \<and> confidence s \<ge> 0.8 then END
     else if reviewerApproved s = Some False then HUMAN_APPROVAL
     else END)"

text \<open>
  The context hint of the human prompt (the conditional text above the input area):
  the student prompt when \<^verbatim>\<open>state.quiz && !state.studentAnswers\<close>, the supervisor prompt
  otherwise.
\<close>

definition student_prompt :: string where
  "student_prompt =
    ''You are currently the STUDENT. Please answer the quiz questions generated by the AI.''"

definition supervisor_prompt :: string where
  "supervisor_prompt =
    ''The system requires review. Provide feedback or override instructions.''"

definition contextHint :: "SharedState \<Rightarrow> string" where
  "contextHint s =
    (if truthy (quiz s) \<and> \<not> truthy (studentAnswers s) then student_prompt
     else supervisor_prompt)"

text \<open>The constant \<^verbatim>\<open>INITIAL_STATE\<close> of the application.\<close>

definition INITIAL_STATE :: SharedState where
  "INITIAL_STATE =
    \<lparr>topic = [], difficulty = ''Beginner'', lessonPlan = None, explanation = None,
     quiz = None, studentAnswers = None, feedback = None, motivatorMessage = None,
     reviewerApproved = None, reviewerComments = None, confidence = 0,
     turnCount = 0, maxTurns = 15\<rparr>"

section \<open>The invoker (services/geminiService.ts)\<close>

text \<open>
  What the external call \<^verbatim>\<open>ai.models.generateContent\<close> does is not the program's
  choice: it either throws (\<open>Throws\<close>) or returns a response whose \<^verbatim>\<open>text\<close> is a
  string or undefined (\<open>Returns\<close>). \<^verbatim>\<open>callAgent\<close> rethrows in the first case and returns
  \<^verbatim>\<open>response.text || "No response generated."\<close> in the second. The agent and the
  state only shape the prompt that is sent.
\<close>

datatype response = Throws | Returns "string option"

datatype call_error = GenerateContentError

definition callAgent :: "Agent \<Rightarrow> SharedState \<Rightarrow> response \<Rightarrow> call_error + string" where
  "callAgent a s r =
    (case r of
       Throws \<Rightarrow> Inl GenerateContentError
     | Returns t \<Rightarrow>
         (case t of
            None \<Rightarrow> Inr ''No response generated.''
          | Some x \<Rightarrow> if x = [] then Inr ''No response generated.'' else Inr x))"

section \<open>The application state and its handlers (App)\<close>

text \<open>
  The judgment the Quality-Reviewer's output is parsed into. \<^verbatim>\<open>JSON.parse\<close> is a
  parameter of the model: \<open>parse out = None\<close> when \<^verbatim>\<open>JSON.parse(out)\<close> (or reading a
  property of its result) throws, and \<open>Some review\<close> otherwise, the three properties
  having the types that \<^verbatim>\<open>SharedState\<close> declares for the fields they are assigned to
  (the response schema of the service call requires all three). The property
  \<^verbatim>\<open>confidence\<close> is \<open>review_confidence\<close> here, the field name being taken.
\<close>

record Review =
  approved :: "bool option"
  comments :: "string option"
  review_confidence :: real

type_synonym json_parse = "string \<Rightarrow> Review option"

text \<open>
  The component's state: the \<^verbatim>\<open>useState\<close> cells of \<^verbatim>\<open>App\<close>, and the two kinds of
  continuation the JavaScript runtime holds for it: the \<^verbatim>\<open>callAgent\<close> promises that have
  not settled yet (\<open>inflight\<close>, each with the arguments of its \<^verbatim>\<open>runStep\<close>), and the
  \<^verbatim>\<open>setTimeout\<close> callbacks that have not fired yet (\<open>timers\<close>, in the order they were
  scheduled, all with the same delay).
\<close>

record App =
  state :: SharedState
  logs :: "LogEntry list"
  isProcessing :: bool
  topicInput :: string
  difficultyInput :: string
  humanInput :: string
  showHumanPrompt :: bool
  currentStep :: "Agent option"
  inflight :: "(Agent \<times> SharedState) list"
  timers :: "(Agent \<times> SharedState) list"

definition initial_app :: App where
  "initial_app =
    \<lparr>state = INITIAL_STATE, logs = [], isProcessing = False, topicInput = [],
     difficultyInput = ''Beginner'', humanInput = [], showHumanPrompt = False,
     currentStep = None, inflight = [], timers = []\<rparr>"

definition addLog :: "Agent \<Rightarrow> string \<Rightarrow> LogType \<Rightarrow> string option \<Rightarrow> App \<Rightarrow> App" where
  "addLog a c t r app =
    app\<lparr>logs := logs app @ [\<lparr>agent = a, content = c, entry_type = t, reason = r\<rparr>]\<rparr>"

text \<open>
  \<^verbatim>\<open>runStep\<close> is an async function. Its first part runs at once, up to the \<^verbatim>\<open>await\<close>:
  it sets the busy flags, logs the status entry and issues the call
  (\<open>runStep_begin\<close>). Its second part runs when the call has settled
  (\<open>runStep_resume\<close>), with the result of \<^verbatim>\<open>callAgent\<close>.
\<close>

definition starting_entry :: "Agent \<Rightarrow> LogEntry" where
  "starting_entry a =
    \<lparr>agent = a, content = ''Agent '' @ agent_name a @ '' starting...'',
     entry_type = Status, reason = None\<rparr>"

definition runStep_begin :: "Agent \<Rightarrow> SharedState \<Rightarrow> App \<Rightarrow> App" where
  "runStep_begin targetAgent currentState app =
    app\<lparr>isProcessing := True,
        currentStep := Some targetAgent,
        logs := logs app @ [starting_entry targetAgent],
        inflight := inflight app @ [(targetAgent, currentState)]\<rparr>"

text \<open>
  The \<^verbatim>\<open>switch\<close> of \<^verbatim>\<open>runStep\<close>, applied to the copy of the state whose \<open>turnCount\<close>
  has been incremented. \<open>None\<close> is the exception of the Quality-Reviewer's case; the
  agents without a case leave the copy as it is.
\<close>

fun runStep_switch :: "json_parse \<Rightarrow> Agent \<Rightarrow> string \<Rightarrow> SharedState \<Rightarrow> SharedState option" where
  "runStep_switch parse CURRICULUM_PLANNER output u = Some (u\<lparr>lessonPlan := Some output\<rparr>)"
| "runStep_switch parse CONCEPT_EXPLAINER output u = Some (u\<lparr>explanation := Some output\<rparr>)"
| "runStep_switch parse QUIZ_GENERATOR output u = Some (u\<lparr>quiz := Some output\<rparr>)"
| "runStep_switch parse FEEDBACK_ANALYZER output u = Some (u\<lparr>feedback := Some output\<rparr>)"
| "runStep_switch parse MOTIVATOR output u = Some (u\<lparr>motivatorMessage := Some output\<rparr>)"
| "runStep_switch parse QUALITY_REVIEWER output u =
     (case parse output of
        None \<Rightarrow> None
      | Some review \<Rightarrow>
          Some (u\<lparr>reviewerApproved := approved review,
                  reviewerComments := comments review,
                  confidence := review_confidence review\<rparr>))"
| "runStep_switch parse SUPERVISOR output u = Some u"
| "runStep_switch parse HUMAN_APPROVAL output u = Some u"
| "runStep_switch parse END output u = Some u"

text \<open>
  The one field that the switch assigns the output to, for the five agents that have
  one; the other agents have none (the Quality-Reviewer's three fields take the parts of
  the parsed judgment).
\<close>

fun designated_field :: "Agent \<Rightarrow> SharedState \<Rightarrow> string option" where
  "designated_field CURRICULUM_PLANNER s = lessonPlan s"
| "designated_field CONCEPT_EXPLAINER s = explanation s"
| "designated_field QUIZ_GENERATOR s = quiz s"
| "designated_field FEEDBACK_ANALYZER s = feedback s"
| "designated_field MOTIVATOR s = motivatorMessage s"
| "designated_field a s = None"

definition failed_entry :: "Agent \<Rightarrow> LogEntry" where
  "failed_entry a =
    \<lparr>agent = a, content = ''Execution failed.'', entry_type = Error, reason = None\<rparr>"

definition runStep_catch :: "Agent \<Rightarrow> App \<Rightarrow> App" where
  "runStep_catch targetAgent app = app\<lparr>logs := logs app @ [failed_entry targetAgent]\<rparr>"

definition runStep_finally :: "App \<Rightarrow> App" where
  "runStep_finally app = app\<lparr>isProcessing := False, currentStep := None\<rparr>"

definition runStep_continue :: "SharedState \<Rightarrow> App \<Rightarrow> App" where
  "runStep_continue updatedState app =
    (let next = determineNextAgent updatedState in
     if next = HUMAN_APPROVAL then
       addLog SUPERVISOR ''Awaiting human intervention.'' Decision
         (Some ''Human input required for student answers or system adjustment.'')
         (app\<lparr>showHumanPrompt := True\<rparr>)
     else if next \<noteq> END then
       app\<lparr>timers := timers app @ [(next, updatedState)]\<rparr>
     else
       addLog END ''Learning objective reached or max turns exceeded.'' Status None app)"

definition runStep_resume ::
  "json_parse \<Rightarrow> Agent \<Rightarrow> SharedState \<Rightarrow> call_error + string \<Rightarrow> App \<Rightarrow> App" where
  "runStep_resume parse targetAgent currentState result app =
    runStep_finally
      (case result of
         Inl err \<Rightarrow> runStep_catch targetAgent app
       | Inr output \<Rightarrow>
           (case runStep_switch parse targetAgent output
                   (currentState\<lparr>turnCount := turnCount currentState + 1\<rparr>) of
              None \<Rightarrow> runStep_catch targetAgent app
            | Some updatedState \<Rightarrow>
                runStep_continue updatedState
                  ((addLog targetAgent output Output None app)\<lparr>state := updatedState\<rparr>)))"

definition startSession :: "App \<Rightarrow> App" where
  "startSession app =
    (if topicInput app = [] then app
     else
       let s = INITIAL_STATE\<lparr>topic := topicInput app, difficulty := difficultyInput app\<rparr>
       in runStep_begin CURRICULUM_PLANNER s
            (addLog SUPERVISOR
               (''Initializing session for: '' @ topicInput app @ '' ('' @
                  difficultyInput app @ '')'')
               Status None
               (app\<lparr>state := s, logs := []\<rparr>)))"

definition handleHumanSubmit :: "App \<Rightarrow> App" where
  "handleHumanSubmit app =
    (if humanInput app = [] then app
     else
       let app1 = app\<lparr>showHumanPrompt := False\<rparr>;
           student = (truthy (quiz (state app)) \<and> \<not> truthy (studentAnswers (state app)));
           updatedState =
             (if student then (state app)\<lparr>studentAnswers := Some (humanInput app)\<rparr>
              else state app);
           app2 =
             (if student
              then addLog HUMAN_APPROVAL (''Student Answer: '' @ humanInput app) Output None app1
              else addLog HUMAN_APPROVAL (''Human feedback: '' @ humanInput app) Output None app1);
           app3 = app2\<lparr>humanInput := [], state := updatedState\<rparr>
       in runStep_begin (determineNextAgent updatedState) updatedState app3)"

section \<open>The events of a running application\<close>

text \<open>
  Everything that happens to the component is one of these events, each handled to
  completion before the next (JavaScript's event loop):
  the user edits the topic or picks a difficulty (both controls are disabled while
  \<^verbatim>\<open>state.turnCount > 0 && state.reviewerApproved !== true\<close>), clicks the start button
  (disabled while \<^verbatim>\<open>isProcessing || !topicInput\<close>), edits the human input or clicks the
  submit button (the input area and the button are rendered only while
  \<^verbatim>\<open>showHumanPrompt\<close>), the \<open>i\<close>-th pending call settles with what the service did,
  or the oldest pending timer fires.
\<close>

datatype event =
    TypeTopic string
  | SelectDifficulty string
  | ClickStart
  | TypeHuman string
  | ClickSubmit
  | Settle nat response
  | Fire

definition difficulty_options :: "string list" where
  "difficulty_options = [''Toddler'', ''Beginner'', ''Intermediate'', ''Advanced'', ''Expert'']"

definition inputs_disabled :: "App \<Rightarrow> bool" where
  "inputs_disabled app =
    (turnCount (state app) > 0 \<and> reviewerApproved (state app) \<noteq> Some True)"

fun step :: "json_parse \<Rightarrow> event \<Rightarrow> App \<Rightarrow> App" where
  "step parse (TypeTopic t) app =
     (if inputs_disabled app then app else app\<lparr>topicInput := t\<rparr>)"
| "step parse (SelectDifficulty d) app =
     (if inputs_disabled app then app
      else if d \<in> set difficulty_options then app\<lparr>difficultyInput := d\<rparr>
      else app)"
| "step parse ClickStart app =
     (if isProcessing app \<or> topicInput app = [] then app else startSession app)"
| "step parse (TypeHuman t) app =
     (if showHumanPrompt app then app\<lparr>humanInput := t\<rparr> else app)"
| "step parse ClickSubmit app =
     (if showHumanPrompt app then handleHumanSubmit app else app)"
| "step parse (Settle i r) app =
     (if i < length (inflight app) then
        (case inflight app ! i of
           (a, cs) \<Rightarrow>
             runStep_resume parse a cs (callAgent a cs r)
               (app\<lparr>inflight := take i (inflight app) @ drop (Suc i) (inflight app)\<rparr>))
      else app)"
| "step parse Fire app =
     (case timers app of
        [] \<Rightarrow> app
      | (a, cs) # ts \<Rightarrow> runStep_begin a cs (app\<lparr>timers := ts\<rparr>))"

fun run :: "json_parse \<Rightarrow> event list \<Rightarrow> App \<Rightarrow> App" where
  "run parse [] app = app"
| "run parse (e # es) app = run parse es (step parse e app)"

section \<open>Concrete states and runs\<close>

text \<open>
  A session after its third turn (plan, explanation and quiz are there, the student has
  not answered), and the same session after the reviewer has rejected it.
\<close>

definition s_quiz :: SharedState where
  "s_quiz =
    INITIAL_STATE\<lparr>topic := ''Photosynthesis'', lessonPlan := Some ''plan'',
                   explanation := Some ''explanation'', quiz := Some ''quiz'',
                   turnCount := 3\<rparr>"

definition s_rejected :: SharedState where
  "s_rejected =
    s_quiz\<lparr>studentAnswers := Some ''B, A, C'', feedback := Some ''feedback'',
            motivatorMessage := Some ''well done'', reviewerApproved := Some False,
            reviewerComments := Some ''The quiz does not match the plan.'',
            confidence := 0.4, turnCount := 6\<rparr>"

text \<open>
  One judgment of the reviewer as the service sends it, and a \<^verbatim>\<open>JSON.parse\<close> that
  knows this one text and throws on every other.
\<close>

definition review_json :: string where
  \<open>review_json =
    ''{"approved":false,"comments":"The quiz does not match the plan.","confidence":0.4}''\<close>

definition parse_review :: json_parse where
  "parse_review out =
    (if out = review_json
     then Some \<lparr>approved = Some False,
                comments = Some ''The quiz does not match the plan.'',
                review_confidence = 0.4\<rparr>
     else None)"

definition says :: "string \<Rightarrow> response" where
  "says t = Returns (Some t)"

text \<open>
  A run in which the user starts a session, and starts it again after the first turn,
  in the pause before the second turn: the timer of the first session is still pending
  and its turns go on beside those of the second session. The first session's turns
  settle at once (\<open>first_to_review\<close>, then nine rounds of supervision); the second
  session's planner call stays pending until the first session has issued its fifteenth
  turn, then the second session runs up to its quiz (\<open>second_to_quiz\<close>) and shows the
  human prompt. When the fifteenth turn of the first session settles, the prompt is
  still there, and one more submission follows.
\<close>

definition two_sessions :: "event list" where
  "two_sessions =
    [TypeTopic ''Photosynthesis'', ClickStart, Settle 0 (says ''plan''), ClickStart]"

definition first_to_review :: "event list" where
  "first_to_review =
    [Fire, Settle 1 (says ''explanation''), Fire, Settle 1 (says ''quiz''),
     TypeHuman ''B, A, C'', ClickSubmit, Settle 1 (says ''feedback''),
     Fire, Settle 1 (says ''well done''), Fire, Settle 1 (says review_json)]"

definition supervise :: "event list" where
  "supervise =
    [TypeHuman ''Please revise.'', ClickSubmit, Settle 1 (says ''Summary for the human.'')]"

definition second_to_quiz :: "event list" where
  "second_to_quiz =
    [Settle 0 (says ''plan''), Fire, Settle 1 (says ''explanation''),
     Fire, Settle 1 (says ''quiz'')]"

definition overrun :: "event list" where
  "overrun =
    two_sessions @ first_to_review @
    supervise @ supervise @ supervise @ supervise @
    supervise @ supervise @ supervise @ supervise @
    [TypeHuman ''Please revise.'', ClickSubmit] @
    second_to_quiz @
    [Settle 0 (says ''Summary for the human.''),
     TypeHuman ''Please revise.'', ClickSubmit, Settle 0 (says ''Session completed.'')]"

text \<open>
  An ordinary session, one turn at a time, up to the reviewer's rejection; and the
  application at four moments of it: while the explainer's call is pending, at the
  student prompt, while the reviewer's call is pending, and at the supervisor prompt
  with a text typed in. \<open>app_summarising\<close> is the application after that text has been
  submitted, while the call of the pseudo-agent \<open>HUMAN_APPROVAL\<close> is pending.
\<close>

definition session_to_review :: "event list" where
  "session_to_review =
    [TypeTopic ''Photosynthesis'', ClickStart, Settle 0 (says ''plan''),
     Fire, Settle 0 (says ''explanation''), Fire, Settle 0 (says ''quiz''),
     TypeHuman ''B, A, C'', ClickSubmit, Settle 0 (says ''feedback''),
     Fire, Settle 0 (says ''well done''), Fire, Settle 0 (says review_json)]"

definition app_explaining :: App where
  "app_explaining = run parse_review (take 4 session_to_review) initial_app"

definition app_quiz_prompt :: App where
  "app_quiz_prompt = run parse_review (take 7 session_to_review) initial_app"

definition app_reviewing :: App where
  "app_reviewing = run parse_review (butlast session_to_review) initial_app"

definition app_supervising :: App where
  "app_supervising =
    run parse_review (session_to_review @ [TypeHuman ''Please revise.'']) initial_app"

definition app_summarising :: App where
  "app_summarising = step parse_review ClickSubmit app_supervising"

text \<open>
  The application in the run \<open>overrun\<close> after the second click on start and the firing
  of the first session's timer: the explainer's call of the first session is pending
  while the session state is the fresh state of the second session. And the same run one
  event later, when that call has returned: the planner's call of the second session is
  pending while the session state is the first session's.
\<close>

definition app_restarted :: App where
  "app_restarted = run parse_review (two_sessions @ [Fire]) initial_app"

definition app_restarted_later :: App where
  "app_restarted_later =
    run parse_review (two_sessions @ [Fire, Settle 1 (says ''explanation'')]) initial_app"

text \<open>
  Two conditions on the component that the proofs below carry along a run: the human
  input is empty unless the prompt is shown; and no artifact field holds an empty string.
\<close>

definition prompt_inv :: "App \<Rightarrow> bool" where
  "prompt_inv app = (humanInput app = [] \<or> showHumanPrompt app)"

definition stored :: "string option \<Rightarrow> bool" where
  "stored x = (x = None \<or> truthy x)"

definition artifacts_ok :: "SharedState \<Rightarrow> bool" where
  "artifacts_ok s =
    (stored (lessonPlan s) \<and> stored (explanation s) \<and> stored (quiz s) \<and>
     stored (studentAnswers s) \<and> stored (feedback s) \<and> stored (motivatorMessage s))"

definition app_ok :: "App \<Rightarrow> bool" where
  "app_ok app =
    (artifacts_ok (state app) \<and> list_all (\<lambda>p. artifacts_ok (snd p)) (inflight app) \<and>
     list_all (\<lambda>p. artifacts_ok (snd p)) (timers app))"

text \<open>
  The condition that carries the turn cap along a run whose clicks on start and submit
  come only while no call is in flight and no timer is pending. \<open>pending\<close> are the
  continuations the runtime holds. \<open>unset3\<close> counts the artifacts still missing before
  the first prompt; a turn is \<open>fresh_turn\<close> when it belongs to a session that has not
  reached that prompt yet.
\<close>

definition pending :: "App \<Rightarrow> (Agent \<times> SharedState) list" where
  "pending app = inflight app @ timers app"

fun is_click :: "event \<Rightarrow> bool" where
  "is_click ClickStart = True"
| "is_click ClickSubmit = True"
| "is_click e = False"

fun one_at_a_time :: "json_parse \<Rightarrow> event list \<Rightarrow> App \<Rightarrow> bool" where
  "one_at_a_time parse [] app = True"
| "one_at_a_time parse (e # es) app =
     ((if is_click e then pending app = [] else True) \<and>
      one_at_a_time parse es (step parse e app))"

definition unset3 :: "SharedState \<Rightarrow> nat" where
  "unset3 s =
    (if truthy (lessonPlan s) then 0 else 1) + (if truthy (explanation s) then 0 else 1) +
    (if truthy (quiz s) then 0 else 1)"

definition fresh_turn :: "Agent \<Rightarrow> SharedState \<Rightarrow> bool" where
  "fresh_turn a cs =
    (a = determineNextAgent cs \<and> \<not> truthy (studentAnswers cs) \<and> 1 \<le> unset3 cs \<and>
     turnCount cs + unset3 cs \<le> 3)"

definition turn_ok :: "bool \<Rightarrow> Agent \<times> SharedState \<Rightarrow> bool" where
  "turn_ok prompt p =
    (maxTurns (snd p) = 15 \<and> turnCount (snd p) < 15 \<and>
     (if prompt then fresh_turn (fst p) (snd p) else True))"

definition seq_inv :: "App \<Rightarrow> bool" where
  "seq_inv app =
    (maxTurns (state app) = 15 \<and> turnCount (state app) \<le> 15 \<and>
     length (pending app) \<le> 1 \<and>
     list_all (turn_ok (showHumanPrompt app)) (pending app) \<and>
     list_all (\<lambda>p. snd p = state app) (pending app) \<and>
     (if showHumanPrompt app then turnCount (state app) < 15 else True))"

text \<open>
  The condition that carries the order of the artifacts along any run: a state holds a
  feedback only if it holds the student's answers, and every pending turn is the
  selector's decision on the state it was started on.
\<close>

definition ordered :: "SharedState \<Rightarrow> bool" where
  "ordered s = (if truthy (feedback s) then truthy (studentAnswers s) else True)"

definition decided :: "Agent \<times> SharedState \<Rightarrow> bool" where
  "decided p = (fst p = determineNextAgent (snd p) \<and> ordered (snd p))"

definition order_inv :: "App \<Rightarrow> bool" where
  "order_inv app = (ordered (state app) \<and> list_all decided (pending app))"

text \<open>
  The condition that the prompt is shown whenever the session state waits for the
  student: plan, explanation and quiz are set, the answers are not, and the cap is not
  reached.
\<close>

definition student_wait :: "SharedState \<Rightarrow> bool" where
  "student_wait s =
    (turnCount s < maxTurns s \<and> truthy (lessonPlan s) \<and> truthy (explanation s) \<and>
     truthy (quiz s) \<and> \<not> truthy (studentAnswers s))"

definition wait_inv :: "App \<Rightarrow> bool" where
  "wait_inv app = (if student_wait (state app) then showHumanPrompt app else True)"

section \<open>Basic facts about the handlers\<close>

lemma callAgent_nonempty: "callAgent a s r = Inr out \<Longrightarrow> out \<noteq> []"
  by (auto simp: callAgent_def split: response.splits option.splits if_splits)

lemma callAgent_Returns: "\<exists>out. callAgent a s (Returns t) = Inr out"
  by (cases t) (simp_all add: callAgent_def)

lemma state_runStep_catch [simp]: "state (runStep_catch a app) = state app"
  by (simp add: runStep_catch_def)

lemma state_runStep_finally [simp]: "state (runStep_finally app) = state app"
  by (simp add: runStep_finally_def)

lemma logs_runStep_finally [simp]: "logs (runStep_finally app) = logs app"
  by (simp add: runStep_finally_def)

lemma state_addLog [simp]: "state (addLog a c t r app) = state app"
  by (simp add: addLog_def)

lemma state_runStep_continue [simp]: "state (runStep_continue u app) = state app"
  by (simp add: runStep_continue_def Let_def)

lemma state_runStep_begin [simp]: "state (runStep_begin a cs app) = state app"
  by (simp add: runStep_begin_def)

lemma inflight_runStep_begin [simp]:
  "inflight (runStep_begin a cs app) = inflight app @ [(a, cs)]"
  by (simp add: runStep_begin_def)

lemma logs_runStep_begin [simp]:
  "logs (runStep_begin a cs app) = logs app @ [starting_entry a]"
  by (simp add: runStep_begin_def)

text \<open>A turn that fails, by the call or by the parse, runs the catch block only.\<close>

lemma runStep_resume_failed:
  "result = Inl err \<or>
   (\<exists>out. result = Inr out \<and>
      runStep_switch parse a out (cs\<lparr>turnCount := turnCount cs + 1\<rparr>) = None) \<Longrightarrow>
   runStep_resume parse a cs result app = runStep_finally (runStep_catch a app)"
  by (auto simp: runStep_resume_def)

text \<open>A turn that succeeds stores the state that the switch has built.\<close>

lemma runStep_resume_ok:
  "runStep_switch parse a out (cs\<lparr>turnCount := turnCount cs + 1\<rparr>) = Some u \<Longrightarrow>
   state (runStep_resume parse a cs (Inr out) app) = u"
  by (simp add: runStep_resume_def)

text \<open>Whatever the agent, the state a successful turn stores counts one turn more.\<close>

lemma runStep_switch_turnCount:
  "runStep_switch parse a out u = Some u' \<Longrightarrow> turnCount u' = turnCount u"
  by (cases a) (auto split: option.splits)

lemma successful_turn_increments:
  assumes "runStep_switch parse a out (cs\<lparr>turnCount := turnCount cs + 1\<rparr>) = Some u"
  shows "turnCount (state (runStep_resume parse a cs (Inr out) app)) = turnCount cs + 1"
  using runStep_switch_turnCount [OF assms] runStep_resume_ok [OF assms] by simp

lemma handleHumanSubmit_student:
  "humanInput app \<noteq> [] \<Longrightarrow> truthy (quiz (state app)) \<Longrightarrow>
   \<not> truthy (studentAnswers (state app)) \<Longrightarrow>
   state (handleHumanSubmit app) = (state app)\<lparr>studentAnswers := Some (humanInput app)\<rparr>"
  by (simp add: handleHumanSubmit_def Let_def addLog_def)

lemma handleHumanSubmit_inflight:
  "humanInput app \<noteq> [] \<Longrightarrow>
   inflight (handleHumanSubmit app) =
     inflight app @
     [(determineNextAgent (state (handleHumanSubmit app)), state (handleHumanSubmit app))]"
  by (simp add: handleHumanSubmit_def Let_def addLog_def)

lemma handleHumanSubmit_ignores_flag:
  "humanInput app \<noteq> [] \<Longrightarrow>
   handleHumanSubmit (app\<lparr>showHumanPrompt := b\<rparr>) = handleHumanSubmit app"
  by (simp add: handleHumanSubmit_def Let_def addLog_def runStep_begin_def)

lemma handleHumanSubmit_logs:
  "humanInput app \<noteq> [] \<Longrightarrow>
   length (logs (handleHumanSubmit app)) = length (logs app) + 2"
  by (simp add: handleHumanSubmit_def Let_def addLog_def runStep_begin_def)

subsection \<open>The human input is empty unless the prompt is shown\<close>

lemma prompt_inv_addLog [simp]: "prompt_inv (addLog a c t r app) = prompt_inv app"
  by (simp add: prompt_inv_def addLog_def)

lemma prompt_inv_runStep_begin [simp]: "prompt_inv (runStep_begin a cs app) = prompt_inv app"
  by (simp add: prompt_inv_def runStep_begin_def)

lemma prompt_inv_inflight [simp]: "prompt_inv (app\<lparr>inflight := xs\<rparr>) = prompt_inv app"
  by (simp add: prompt_inv_def)

lemma prompt_inv_timers [simp]: "prompt_inv (app\<lparr>timers := xs\<rparr>) = prompt_inv app"
  by (simp add: prompt_inv_def)

lemma prompt_inv_runStep_resume:
  "prompt_inv app \<Longrightarrow> prompt_inv (runStep_resume parse a cs result app)"
  by (auto simp: prompt_inv_def runStep_resume_def runStep_finally_def runStep_catch_def
      runStep_continue_def addLog_def Let_def split: sum.splits option.splits)

lemma prompt_inv_startSession: "prompt_inv app \<Longrightarrow> prompt_inv (startSession app)"
  by (auto simp: prompt_inv_def startSession_def runStep_begin_def addLog_def Let_def)

lemma prompt_inv_handleHumanSubmit: "prompt_inv app \<Longrightarrow> prompt_inv (handleHumanSubmit app)"
  by (auto simp: prompt_inv_def handleHumanSubmit_def runStep_begin_def addLog_def Let_def)

lemma prompt_inv_step: "prompt_inv app \<Longrightarrow> prompt_inv (step parse e app)"
proof (cases e)
  case (Settle i r)
  then show "prompt_inv app \<Longrightarrow> prompt_inv (step parse e app)"
    by (auto split: prod.splits intro!: prompt_inv_runStep_resume)
next
  case Fire
  then show "prompt_inv app \<Longrightarrow> prompt_inv (step parse e app)"
    by (auto split: list.splits)
qed (auto simp: prompt_inv_startSession prompt_inv_handleHumanSubmit, auto simp: prompt_inv_def)

lemma prompt_inv_run: "prompt_inv app \<Longrightarrow> prompt_inv (run parse es app)"
  by (induction es arbitrary: app) (auto simp: prompt_inv_step)

lemma prompt_inv_initial: "prompt_inv initial_app"
  by (simp add: prompt_inv_def initial_app_def)

subsection \<open>No artifact field holds an empty string\<close>

lemma stored_simps [simp]: "stored None" "out \<noteq> [] \<Longrightarrow> stored (Some out)"
  by (simp_all add: stored_def)

lemma artifacts_ok_turnCount [simp]:
  "artifacts_ok (s\<lparr>turnCount := n\<rparr>) = artifacts_ok s"
  by (simp add: artifacts_ok_def)

lemma artifacts_ok_switch:
  "artifacts_ok u \<Longrightarrow> out \<noteq> [] \<Longrightarrow> runStep_switch parse a out u = Some u' \<Longrightarrow> artifacts_ok u'"
  by (cases a) (auto simp: artifacts_ok_def split: option.splits)

lemma app_ok_addLog [simp]: "app_ok (addLog a c t r app) = app_ok app"
  by (simp add: app_ok_def addLog_def)

lemma app_ok_runStep_begin:
  "app_ok app \<Longrightarrow> artifacts_ok cs \<Longrightarrow> app_ok (runStep_begin a cs app)"
  by (simp add: app_ok_def runStep_begin_def)

lemma app_ok_runStep_finally [simp]: "app_ok (runStep_finally app) = app_ok app"
  by (simp add: app_ok_def runStep_finally_def)

lemma app_ok_runStep_catch [simp]: "app_ok (runStep_catch a app) = app_ok app"
  by (simp add: app_ok_def runStep_catch_def)

lemma app_ok_runStep_continue:
  "app_ok app \<Longrightarrow> artifacts_ok u \<Longrightarrow> app_ok (runStep_continue u app)"
  by (simp add: app_ok_def runStep_continue_def Let_def addLog_def)

lemma app_ok_state_update:
  "app_ok app \<Longrightarrow> artifacts_ok u \<Longrightarrow> app_ok (app\<lparr>state := u\<rparr>)"
  by (simp add: app_ok_def)

lemma app_ok_runStep_resume:
  assumes "app_ok app" and "artifacts_ok cs"
  shows "app_ok (runStep_resume parse a cs (callAgent a cs r) app)"
proof (cases "callAgent a cs r")
  case (Inl err)
  then show ?thesis using assms by (simp add: runStep_resume_def)
next
  case (Inr out)
  then have ne: "out \<noteq> []" by (rule callAgent_nonempty)
  show ?thesis
  proof (cases "runStep_switch parse a out (cs\<lparr>turnCount := turnCount cs + 1\<rparr>)")
    case None
    then show ?thesis using Inr assms by (simp add: runStep_resume_def)
  next
    case (Some u)
    have "artifacts_ok u"
      using artifacts_ok_switch [OF _ ne Some] assms(2) by simp
    then show ?thesis
      using Inr Some assms(1)
      by (simp add: runStep_resume_def app_ok_runStep_continue app_ok_state_update)
  qed
qed

lemma artifacts_ok_INITIAL [simp]: "artifacts_ok (INITIAL_STATE\<lparr>topic := t, difficulty := d\<rparr>)"
  by (simp add: artifacts_ok_def INITIAL_STATE_def)

lemma app_ok_startSession:
  assumes "app_ok app"
  shows "app_ok (startSession app)"
proof (cases "topicInput app = []")
  case True
  then show ?thesis using assms by (simp add: startSession_def)
next
  case False
  let ?s = "INITIAL_STATE\<lparr>topic := topicInput app, difficulty := difficultyInput app\<rparr>"
  have "app_ok (app\<lparr>state := ?s, logs := []\<rparr>)"
    using assms by (simp add: app_ok_def)
  then show ?thesis
    using False by (simp add: startSession_def Let_def app_ok_runStep_begin)
qed

lemma handleHumanSubmit_student_eq:
  assumes "humanInput app \<noteq> []" and "truthy (quiz (state app))"
    and "\<not> truthy (studentAnswers (state app))"
  shows "handleHumanSubmit app =
    runStep_begin
      (determineNextAgent ((state app)\<lparr>studentAnswers := Some (humanInput app)\<rparr>))
      ((state app)\<lparr>studentAnswers := Some (humanInput app)\<rparr>)
      (app\<lparr>showHumanPrompt := False,
           logs := logs app @
             [\<lparr>agent = HUMAN_APPROVAL, content = ''Student Answer: '' @ humanInput app,
               entry_type = Output, reason = None\<rparr>],
           humanInput := [],
           state := (state app)\<lparr>studentAnswers := Some (humanInput app)\<rparr>\<rparr>)"
  using assms by (simp add: handleHumanSubmit_def Let_def addLog_def)

lemma handleHumanSubmit_supervisor_eq:
  assumes "humanInput app \<noteq> []"
    and "\<not> truthy (quiz (state app)) \<or> truthy (studentAnswers (state app))"
  shows "handleHumanSubmit app =
    runStep_begin (determineNextAgent (state app)) (state app)
      (app\<lparr>showHumanPrompt := False,
           logs := logs app @
             [\<lparr>agent = HUMAN_APPROVAL, content = ''Human feedback: '' @ humanInput app,
               entry_type = Output, reason = None\<rparr>],
           humanInput := []\<rparr>)"
  using assms
  by (cases "truthy (quiz (state app))"; cases "truthy (studentAnswers (state app))")
    (simp_all add: handleHumanSubmit_def Let_def addLog_def)

lemma app_ok_handleHumanSubmit:
  assumes "app_ok app"
  shows "app_ok (handleHumanSubmit app)"
proof (cases "humanInput app = []")
  case True
  then show ?thesis using assms by (simp add: handleHumanSubmit_def)
next
  case False
  show ?thesis
  proof (cases "truthy (quiz (state app)) \<and> \<not> truthy (studentAnswers (state app))")
    case True
    have u: "artifacts_ok ((state app)\<lparr>studentAnswers := Some (humanInput app)\<rparr>)"
      using assms False by (simp add: app_ok_def artifacts_ok_def)
    show ?thesis
      unfolding handleHumanSubmit_student_eq [OF False conjunct1 [OF True] conjunct2 [OF True]]
      using assms u by (intro app_ok_runStep_begin) (simp_all add: app_ok_def)
  next
    case no: False
    then have d: "\<not> truthy (quiz (state app)) \<or> truthy (studentAnswers (state app))"
      by blast
    show ?thesis
      unfolding handleHumanSubmit_supervisor_eq [OF False d]
      using assms by (intro app_ok_runStep_begin) (simp_all add: app_ok_def)
  qed
qed

lemma list_all_remove:
  "list_all P xs \<Longrightarrow> list_all P (take i xs @ drop (Suc i) xs)"
  by (auto simp: list_all_iff dest: in_set_takeD in_set_dropD)

lemma app_ok_step: "app_ok app \<Longrightarrow> app_ok (step parse e app)"
proof (cases e)
  case (Settle i r)
  assume ok: "app_ok app"
  show ?thesis
  proof (cases "i < length (inflight app)")
    case True
    obtain a cs where p: "inflight app ! i = (a, cs)" by (cases "inflight app ! i")
    have "(a, cs) \<in> set (inflight app)" using nth_mem [OF True] p by simp
    then have cs: "artifacts_ok cs" using ok by (auto simp: app_ok_def list_all_iff)
    have "list_all (\<lambda>p. artifacts_ok (snd p)) (take i (inflight app) @ drop (Suc i) (inflight app))"
      using ok by (intro list_all_remove) (simp add: app_ok_def)
    then have "app_ok (app\<lparr>inflight := take i (inflight app) @ drop (Suc i) (inflight app)\<rparr>)"
      using ok by (simp add: app_ok_def del: list_all_append)
    then show ?thesis
      using Settle True p cs by (simp add: app_ok_runStep_resume)
  next
    case False
    then show ?thesis using Settle ok by simp
  qed
next
  case Fire
  assume ok: "app_ok app"
  show ?thesis
  proof (cases "timers app")
    case Nil
    then show ?thesis using Fire ok by simp
  next
    case (Cons p ts)
    obtain a cs where p: "p = (a, cs)" by (cases p)
    have "app_ok (app\<lparr>timers := ts\<rparr>)" "artifacts_ok cs"
      using ok Cons p by (simp_all add: app_ok_def)
    then show ?thesis
      using Fire Cons p by (simp add: app_ok_runStep_begin)
  qed
next
  case (TypeTopic t)
  assume "app_ok app"
  then show ?thesis using TypeTopic by (simp add: app_ok_def)
next
  case (SelectDifficulty d)
  assume "app_ok app"
  then show ?thesis using SelectDifficulty by (simp add: app_ok_def)
next
  case ClickStart
  assume "app_ok app"
  then show ?thesis using ClickStart by (simp add: app_ok_startSession)
next
  case (TypeHuman t)
  assume "app_ok app"
  then show ?thesis using TypeHuman by (simp add: app_ok_def)
next
  case ClickSubmit
  assume "app_ok app"
  then show ?thesis using ClickSubmit by (simp add: app_ok_handleHumanSubmit)
qed

lemma app_ok_run: "app_ok app \<Longrightarrow> app_ok (run parse es app)"
  by (induction es arbitrary: app) (auto simp: app_ok_step)

lemma app_ok_initial: "app_ok initial_app"
  by (simp add: app_ok_def initial_app_def artifacts_ok_def INITIAL_STATE_def)

lemma stored_artifacts_nonempty:
  "artifacts_ok (state (run parse es initial_app))"
  using app_ok_run [OF app_ok_initial, of parse es] by (simp add: app_ok_def)

lemma stored_truthy: "stored x \<Longrightarrow> truthy x = (x \<noteq> None)"
  by (cases x) (simp_all add: stored_def)

subsection \<open>The turn cap in runs with one continuation at a time\<close>

lemma runStep_switch_frame:
  "runStep_switch parse a out u = Some u' \<Longrightarrow>
   maxTurns u' = maxTurns u \<and> turnCount u' = turnCount u \<and> studentAnswers u' = studentAnswers u"
  by (cases a) (auto split: option.splits)

lemma selector_not_END: "determineNextAgent s \<noteq> END \<Longrightarrow> turnCount s < maxTurns s"
  by (auto simp: determineNextAgent_def split: if_splits)

lemma fresh_turn_agent:
  assumes "fresh_turn a cs" and "turnCount cs < maxTurns cs"
  shows "(a = CURRICULUM_PLANNER \<and> \<not> truthy (lessonPlan cs)) \<or>
         (a = CONCEPT_EXPLAINER \<and> truthy (lessonPlan cs) \<and> \<not> truthy (explanation cs)) \<or>
         (a = QUIZ_GENERATOR \<and> truthy (lessonPlan cs) \<and> truthy (explanation cs) \<and>
            \<not> truthy (quiz cs))"
  using assms by (auto simp: fresh_turn_def determineNextAgent_def unset3_def split: if_splits)

lemma fresh_turn_switch:
  assumes "fresh_turn a cs" and "turnCount cs < maxTurns cs" and "out \<noteq> []"
    and "runStep_switch parse a out (cs\<lparr>turnCount := turnCount cs + 1\<rparr>) = Some u"
  shows "unset3 u + 1 = unset3 cs \<and> \<not> truthy (studentAnswers u) \<and>
         turnCount u = turnCount cs + 1 \<and> maxTurns u = maxTurns cs"
proof -
  have na: "\<not> truthy (studentAnswers cs)" using assms(1) by (simp add: fresh_turn_def)
  from fresh_turn_agent [OF assms(1,2)] show ?thesis
  proof (elim disjE conjE)
    assume "a = CURRICULUM_PLANNER" "\<not> truthy (lessonPlan cs)"
    then show ?thesis using assms(3,4) na by (auto simp: unset3_def)
  next
    assume "a = CONCEPT_EXPLAINER" "truthy (lessonPlan cs)" "\<not> truthy (explanation cs)"
    then show ?thesis using assms(3,4) na by (auto simp: unset3_def)
  next
    assume "a = QUIZ_GENERATOR" "truthy (lessonPlan cs)" "truthy (explanation cs)"
      "\<not> truthy (quiz cs)"
    then show ?thesis using assms(3,4) na by (auto simp: unset3_def)
  qed
qed

lemma unset3_zero_prompt:
  "unset3 u = 0 \<Longrightarrow> \<not> truthy (studentAnswers u) \<Longrightarrow> turnCount u < maxTurns u \<Longrightarrow>
   determineNextAgent u = HUMAN_APPROVAL"
  by (auto simp: unset3_def determineNextAgent_def split: if_splits)

lemma unset3_pos_agent:
  "1 \<le> unset3 u \<Longrightarrow> turnCount u < maxTurns u \<Longrightarrow>
   determineNextAgent u \<noteq> HUMAN_APPROVAL \<and> determineNextAgent u \<noteq> END"
  by (auto simp: unset3_def determineNextAgent_def split: if_splits)

text \<open>The fields of the component after a turn has settled.\<close>

lemma resume_failed_fields:
  assumes "runStep_resume parse a cs result app = runStep_finally (runStep_catch a app)"
  shows "state (runStep_resume parse a cs result app) = state app"
    and "showHumanPrompt (runStep_resume parse a cs result app) = showHumanPrompt app"
    and "pending (runStep_resume parse a cs result app) = pending app"
  unfolding assms by (simp_all add: runStep_finally_def runStep_catch_def pending_def)

lemma resume_ok_fields:
  assumes "runStep_switch parse a out (cs\<lparr>turnCount := turnCount cs + 1\<rparr>) = Some u"
  shows "state (runStep_resume parse a cs (Inr out) app) = u"
    and "showHumanPrompt (runStep_resume parse a cs (Inr out) app)
           = (determineNextAgent u = HUMAN_APPROVAL \<or> showHumanPrompt app)"
    and "pending (runStep_resume parse a cs (Inr out) app)
           = (if determineNextAgent u = HUMAN_APPROVAL \<or> determineNextAgent u = END
              then pending app else pending app @ [(determineNextAgent u, u)])"
  using assms
  by (simp_all add: runStep_resume_def runStep_finally_def runStep_continue_def Let_def
      addLog_def pending_def)

lemma seq_inv_resume:
  assumes m: "maxTurns (state app) = 15" and t: "turnCount (state app) \<le> 15"
    and p: "pending app = []"
    and ok: "turn_ok (showHumanPrompt app) (a, cs)"
    and pr: "showHumanPrompt app \<Longrightarrow> turnCount (state app) < 15"
  shows "seq_inv (runStep_resume parse a cs (callAgent a cs r) app)"
proof -
  have cs: "maxTurns cs = 15" "turnCount cs < 15"
    using ok by (simp_all add: turn_ok_def)
  have failed: "seq_inv (runStep_resume parse a cs result app)"
    if "runStep_resume parse a cs result app = runStep_finally (runStep_catch a app)" for result
    using resume_failed_fields [OF that] m t p pr by (simp add: seq_inv_def)
  show ?thesis
  proof (cases "callAgent a cs r")
    case (Inl err)
    then show ?thesis
      using failed [OF runStep_resume_failed [OF disjI1]] by simp
  next
    case (Inr out)
    then have ne: "out \<noteq> []" by (rule callAgent_nonempty)
    show ?thesis
    proof (cases "runStep_switch parse a out (cs\<lparr>turnCount := turnCount cs + 1\<rparr>)")
      case None
      have "runStep_resume parse a cs (Inr out) app = runStep_finally (runStep_catch a app)"
        using None by (intro runStep_resume_failed) auto
      then show ?thesis using failed Inr by simp
    next
      case (Some u)
      note fields = resume_ok_fields [OF Some, of app]
      have u: "maxTurns u = 15" "turnCount u = turnCount cs + 1"
        using runStep_switch_frame [OF Some] cs by simp_all
      have next_lt: "turnCount u < 15" if "determineNextAgent u \<noteq> END"
        using selector_not_END [OF that] u by simp
      show ?thesis
      proof (cases "showHumanPrompt app")
        case True
        then have fr: "fresh_turn a cs" using ok by (simp add: turn_ok_def)
        have lt: "turnCount cs < maxTurns cs" using cs by simp
        note sw = fresh_turn_switch [OF fr lt ne Some]
        have sum: "turnCount u + unset3 u \<le> 3"
          using sw fr by (simp add: fresh_turn_def)
        then have small: "turnCount u < 15" "turnCount u < maxTurns u" using u by simp_all
        show ?thesis
        proof (cases "unset3 u = 0")
          case True
          have "determineNextAgent u = HUMAN_APPROVAL"
            using unset3_zero_prompt [OF True] sw small by simp
          then show ?thesis
            using Inr fields u p small by (simp add: seq_inv_def)
        next
          case False
          then have pos: "1 \<le> unset3 u" by simp
          have ag: "determineNextAgent u \<noteq> HUMAN_APPROVAL" "determineNextAgent u \<noteq> END"
            using unset3_pos_agent [OF pos small(2)] by simp_all
          have "fresh_turn (determineNextAgent u) u"
            using pos sw sum by (simp add: fresh_turn_def)
          then show ?thesis
            using Inr fields u p small ag \<open>showHumanPrompt app\<close>
            by (simp add: seq_inv_def turn_ok_def)
        qed
      next
        case False
        show ?thesis
        proof (cases "determineNextAgent u = HUMAN_APPROVAL")
          case True
          then have "turnCount u < 15" using next_lt by simp
          then show ?thesis
            using Inr fields u p True by (simp add: seq_inv_def)
        next
          case nh: False
          show ?thesis
          proof (cases "determineNextAgent u = END")
            case True
            have "turnCount u \<le> 15" using u cs by simp
            then show ?thesis
              using Inr fields u p True \<open>\<not> showHumanPrompt app\<close> by (simp add: seq_inv_def)
          next
            case ne': False
            then have "turnCount u < 15" using next_lt by simp
            then show ?thesis
              using Inr fields u p nh ne' \<open>\<not> showHumanPrompt app\<close>
              by (simp add: seq_inv_def turn_ok_def)
          qed
        qed
      qed
    qed
  qed
qed

lemma pending_runStep_begin:
  "pending (runStep_begin a cs app) = inflight app @ [(a, cs)] @ timers app"
  by (simp add: pending_def runStep_begin_def)

lemma showHumanPrompt_runStep_begin [simp]:
  "showHumanPrompt (runStep_begin a cs app) = showHumanPrompt app"
  by (simp add: runStep_begin_def)

lemma seq_inv_startSession:
  assumes "seq_inv app" and "pending app = []"
  shows "seq_inv (startSession app)"
proof (cases "topicInput app = []")
  case True
  then show ?thesis using assms by (simp add: startSession_def)
next
  case False
  let ?s = "INITIAL_STATE\<lparr>topic := topicInput app, difficulty := difficultyInput app\<rparr>"
  have sel: "determineNextAgent ?s = CURRICULUM_PLANNER"
    by (simp add: determineNextAgent_def INITIAL_STATE_def)
  have fr: "fresh_turn CURRICULUM_PLANNER ?s"
    unfolding fresh_turn_def sel by (simp add: unset3_def INITIAL_STATE_def)
  have ok: "turn_ok b (CURRICULUM_PLANNER, ?s)" for b
    using fr by (simp add: turn_ok_def INITIAL_STATE_def)
  have eq: "startSession app =
      runStep_begin CURRICULUM_PLANNER ?s
        (addLog SUPERVISOR
           (''Initializing session for: '' @ topicInput app @ '' ('' @ difficultyInput app @ '')'')
           Status None (app\<lparr>state := ?s, logs := []\<rparr>))"
    using False by (simp add: startSession_def Let_def)
  have pe: "pending (startSession app) = [(CURRICULUM_PLANNER, ?s)]"
    unfolding eq pending_runStep_begin using assms(2) by (simp add: addLog_def pending_def)
  have st: "state (startSession app) = ?s"
    unfolding eq by simp
  have sh: "showHumanPrompt (startSession app) = showHumanPrompt app"
    unfolding eq by (simp add: addLog_def)
  show ?thesis
    unfolding seq_inv_def pe st sh using ok by (simp add: INITIAL_STATE_def)
qed

lemma seq_inv_handleHumanSubmit:
  assumes "seq_inv app" and "pending app = []" and "showHumanPrompt app"
  shows "seq_inv (handleHumanSubmit app)"
proof (cases "humanInput app = []")
  case True
  then show ?thesis using assms by (simp add: handleHumanSubmit_def)
next
  case False
  have lt: "turnCount (state app) < 15" and m: "maxTurns (state app) = 15"
    using assms(1,3) by (simp_all add: seq_inv_def)
  have empty: "inflight app = []" "timers app = []"
    using assms(2) by (simp_all add: pending_def)
  show ?thesis
  proof (cases "truthy (quiz (state app)) \<and> \<not> truthy (studentAnswers (state app))")
    case True
    note eq = handleHumanSubmit_student_eq [OF False conjunct1 [OF True] conjunct2 [OF True]]
    show ?thesis
      unfolding eq seq_inv_def pending_runStep_begin
      using lt m empty by (simp add: turn_ok_def)
  next
    case no: False
    then have d: "\<not> truthy (quiz (state app)) \<or> truthy (studentAnswers (state app))"
      by blast
    note eq = handleHumanSubmit_supervisor_eq [OF False d]
    show ?thesis
      unfolding eq seq_inv_def pending_runStep_begin
      using lt m empty by (simp add: turn_ok_def)
  qed
qed

lemma seq_inv_step:
  assumes inv: "seq_inv app" and calm: "is_click e \<Longrightarrow> pending app = []"
  shows "seq_inv (step parse e app)"
proof (cases e)
  case (TypeTopic t)
  then show ?thesis using inv by (simp add: seq_inv_def pending_def)
next
  case (SelectDifficulty d)
  then show ?thesis using inv by (simp add: seq_inv_def pending_def)
next
  case ClickStart
  then show ?thesis using inv calm by (simp add: seq_inv_startSession)
next
  case (TypeHuman t)
  then show ?thesis using inv by (cases "showHumanPrompt app") (simp_all add: seq_inv_def pending_def)
next
  case ClickSubmit
  then show ?thesis using inv calm by (simp add: seq_inv_handleHumanSubmit)
next
  case (Settle i r)
  show ?thesis
  proof (cases "i < length (inflight app)")
    case False
    then show ?thesis using Settle inv by simp
  next
    case True
    have len: "length (inflight app) + length (timers app) \<le> 1"
      using inv by (simp add: seq_inv_def pending_def)
    then have i0: "i = 0" and l1: "length (inflight app) = 1"
      using True by simp_all
    have "length (timers app) = 0" using len l1 by simp
    then have tm: "timers app = []" by simp
    obtain a cs where p: "inflight app = [(a, cs)]"
      using l1 by (cases "inflight app") auto
    let ?app1 = "app\<lparr>inflight := take i (inflight app) @ drop (Suc i) (inflight app)\<rparr>"
    have pe: "pending ?app1 = []"
      using i0 p tm by (simp add: pending_def)
    have ok: "turn_ok (showHumanPrompt ?app1) (a, cs)"
      using inv p tm by (auto simp: seq_inv_def pending_def)
    have "seq_inv (runStep_resume parse a cs (callAgent a cs r) ?app1)"
      using inv by (intro seq_inv_resume [OF _ _ pe ok]) (simp_all add: seq_inv_def)
    then show ?thesis
      using Settle True i0 p by simp
  qed
next
  case Fire
  show ?thesis
  proof (cases "timers app")
    case Nil
    then show ?thesis using Fire inv by simp
  next
    case (Cons q ts)
    obtain a cs where q: "q = (a, cs)" by (cases q)
    have len: "length (inflight app) + length (timers app) \<le> 1"
      using inv by (simp add: seq_inv_def pending_def)
    then have "length (inflight app) = 0" "length ts = 0" using Cons by simp_all
    then have e: "inflight app = []" "ts = []" by simp_all
    have "pending (runStep_begin a cs (app\<lparr>timers := ts\<rparr>)) = pending app"
      unfolding pending_runStep_begin using e Cons q by (simp add: pending_def)
    then show ?thesis
      using Fire Cons q inv by (simp add: seq_inv_def)
  qed
qed

lemma seq_inv_run:
  "seq_inv app \<Longrightarrow> one_at_a_time parse es app \<Longrightarrow> seq_inv (run parse es app)"
proof (induction es arbitrary: app)
  case Nil
  then show ?case by simp
next
  case (Cons e es)
  have "seq_inv (step parse e app)"
    using Cons.prems by (intro seq_inv_step) (simp_all split: if_splits)
  then show ?case using Cons by simp
qed

lemma seq_inv_initial: "seq_inv initial_app"
  by (simp add: seq_inv_def initial_app_def INITIAL_STATE_def pending_def)

text \<open>
  In such a run, a pending turn was started on the state that is still the session's,
  and in any run it is the selector's decision on the state it was started on.
\<close>

lemma pending_turn_is_current:
  assumes "one_at_a_time parse es initial_app"
    and "(a, cs) \<in> set (pending (run parse es initial_app))"
  shows "cs = state (run parse es initial_app)"
  using seq_inv_run [OF seq_inv_initial assms(1)] assms(2)
  by (auto simp: seq_inv_def list_all_iff)

lemma one_at_a_time_bound:
  assumes "one_at_a_time parse es initial_app"
  shows "turnCount (state (run parse es initial_app)) \<le> maxTurns (state (run parse es initial_app))"
  using seq_inv_run [OF seq_inv_initial assms] by (simp add: seq_inv_def)


subsection \<open>Every turn is the selector's decision; a feedback comes after the answers\<close>

lemma selector_never_SUPERVISOR: "determineNextAgent s \<noteq> SUPERVISOR"
  by (simp add: determineNextAgent_def)

lemma ordered_switch:
  assumes "decided (a, cs)"
    and "runStep_switch parse a out (cs\<lparr>turnCount := turnCount cs + 1\<rparr>) = Some u"
  shows "ordered u"
proof (cases "a = FEEDBACK_ANALYZER")
  case True
  have "determineNextAgent cs = FEEDBACK_ANALYZER"
    using assms(1) True by (simp add: decided_def)
  then have "truthy (studentAnswers cs)"
    by (auto simp: determineNextAgent_def split: if_splits)
  then show ?thesis
    using assms(2) True by (auto simp: ordered_def)
next
  case False
  have "ordered cs" using assms(1) by (simp add: decided_def)
  then show ?thesis
    using assms(2) False by (cases a) (auto simp: ordered_def split: option.splits)
qed

lemma order_inv_resume:
  assumes "order_inv app" and "decided (a, cs)"
  shows "order_inv (runStep_resume parse a cs result app)"
proof (cases result)
  case (Inl err)
  have f: "runStep_resume parse a cs result app = runStep_finally (runStep_catch a app)"
    using Inl by (intro runStep_resume_failed) simp
  show ?thesis
    using resume_failed_fields [OF f] assms(1) by (simp add: order_inv_def)
next
  case (Inr out)
  show ?thesis
  proof (cases "runStep_switch parse a out (cs\<lparr>turnCount := turnCount cs + 1\<rparr>)")
    case None
    have f: "runStep_resume parse a cs result app = runStep_finally (runStep_catch a app)"
      using Inr None by (intro runStep_resume_failed) simp
    show ?thesis
      using resume_failed_fields [OF f] assms(1) by (simp add: order_inv_def)
  next
    case (Some u)
    have u: "ordered u" by (rule ordered_switch [OF assms(2) Some])
    then have "decided (determineNextAgent u, u)" by (simp add: decided_def)
    then show ?thesis
      using resume_ok_fields [OF Some, of app] Inr u assms(1) by (simp add: order_inv_def)
  qed
qed

lemma order_inv_startSession:
  assumes "order_inv app"
  shows "order_inv (startSession app)"
proof (cases "topicInput app = []")
  case True
  then show ?thesis using assms by (simp add: startSession_def)
next
  case False
  let ?s = "INITIAL_STATE\<lparr>topic := topicInput app, difficulty := difficultyInput app\<rparr>"
  have d: "decided (CURRICULUM_PLANNER, ?s)" and o: "ordered ?s"
    by (simp_all add: decided_def ordered_def determineNextAgent_def INITIAL_STATE_def)
  have eq: "startSession app =
      runStep_begin CURRICULUM_PLANNER ?s
        (addLog SUPERVISOR
           (''Initializing session for: '' @ topicInput app @ '' ('' @ difficultyInput app @ '')'')
           Status None (app\<lparr>state := ?s, logs := []\<rparr>))"
    using False by (simp add: startSession_def Let_def)
  show ?thesis
    unfolding eq order_inv_def pending_runStep_begin
    using assms d o by (simp add: order_inv_def pending_def addLog_def)
qed

lemma order_inv_handleHumanSubmit:
  assumes "order_inv app"
  shows "order_inv (handleHumanSubmit app)"
proof (cases "humanInput app = []")
  case True
  then show ?thesis using assms by (simp add: handleHumanSubmit_def)
next
  case False
  show ?thesis
  proof (cases "truthy (quiz (state app)) \<and> \<not> truthy (studentAnswers (state app))")
    case True
    note eq = handleHumanSubmit_student_eq [OF False conjunct1 [OF True] conjunct2 [OF True]]
    have o: "ordered ((state app)\<lparr>studentAnswers := Some (humanInput app)\<rparr>)"
      using False by (simp add: ordered_def)
    show ?thesis
      unfolding eq order_inv_def pending_runStep_begin
      using assms o by (simp add: order_inv_def pending_def decided_def)
  next
    case no: False
    then have d: "\<not> truthy (quiz (state app)) \<or> truthy (studentAnswers (state app))"
      by blast
    note eq = handleHumanSubmit_supervisor_eq [OF False d]
    show ?thesis
      unfolding eq order_inv_def pending_runStep_begin
      using assms by (simp add: order_inv_def pending_def decided_def)
  qed
qed

lemma order_inv_step:
  assumes inv: "order_inv app"
  shows "order_inv (step parse e app)"
proof (cases e)
  case (TypeTopic t)
  then show ?thesis using inv by (simp add: order_inv_def pending_def)
next
  case (SelectDifficulty d)
  then show ?thesis using inv by (simp add: order_inv_def pending_def)
next
  case ClickStart
  then show ?thesis using inv by (simp add: order_inv_startSession)
next
  case (TypeHuman t)
  then show ?thesis
    using inv by (cases "showHumanPrompt app") (simp_all add: order_inv_def pending_def)
next
  case ClickSubmit
  then show ?thesis using inv by (simp add: order_inv_handleHumanSubmit)
next
  case (Settle i r)
  show ?thesis
  proof (cases "i < length (inflight app)")
    case False
    then show ?thesis using Settle inv by simp
  next
    case True
    obtain a cs where p: "inflight app ! i = (a, cs)" by (cases "inflight app ! i")
    have "(a, cs) \<in> set (inflight app)" using nth_mem [OF True] p by simp
    then have d: "decided (a, cs)"
      using inv by (auto simp: order_inv_def pending_def list_all_iff)
    let ?app1 = "app\<lparr>inflight := take i (inflight app) @ drop (Suc i) (inflight app)\<rparr>"
    have "order_inv ?app1"
      using inv
      by (auto simp: order_inv_def pending_def list_all_iff dest: in_set_takeD in_set_dropD)
    then have "order_inv (runStep_resume parse a cs (callAgent a cs r) ?app1)"
      using d by (rule order_inv_resume)
    then show ?thesis using Settle True p by simp
  qed
next
  case Fire
  show ?thesis
  proof (cases "timers app")
    case Nil
    then show ?thesis using Fire inv by simp
  next
    case (Cons q ts)
    obtain a cs where q: "q = (a, cs)" by (cases q)
    have "order_inv (runStep_begin a cs (app\<lparr>timers := ts\<rparr>))"
      unfolding order_inv_def pending_runStep_begin
      using inv Cons q by (simp add: order_inv_def pending_def)
    then show ?thesis using Fire Cons q by simp
  qed
qed

lemma order_inv_run: "order_inv app \<Longrightarrow> order_inv (run parse es app)"
  by (induction es arbitrary: app) (simp_all add: order_inv_step)

lemma order_inv_initial: "order_inv initial_app"
  by (simp add: order_inv_def ordered_def initial_app_def INITIAL_STATE_def pending_def)

text \<open>In a state that a run reaches, a feedback is there only after the answers.\<close>

lemma pending_turn_is_decided:
  assumes "(a, cs) \<in> set (pending (run parse es initial_app))"
  shows "a = determineNextAgent cs"
  using order_inv_run [OF order_inv_initial, of parse es] assms
  by (auto simp: order_inv_def decided_def list_all_iff)

lemma feedback_after_answers:
  "truthy (feedback (state (run parse es initial_app))) \<Longrightarrow>
   truthy (studentAnswers (state (run parse es initial_app)))"
  using order_inv_run [OF order_inv_initial, of parse es]
  by (simp add: order_inv_def ordered_def split: if_splits)

subsection \<open>The prompt is shown while the state waits for the student\<close>

lemma student_wait_selector: "student_wait s \<Longrightarrow> determineNextAgent s = HUMAN_APPROVAL"
  by (simp add: student_wait_def determineNextAgent_def)

lemma wait_inv_resume:
  assumes "wait_inv app"
  shows "wait_inv (runStep_resume parse a cs result app)"
proof (cases result)
  case (Inl err)
  have f: "runStep_resume parse a cs result app = runStep_finally (runStep_catch a app)"
    using Inl by (intro runStep_resume_failed) simp
  show ?thesis
    using resume_failed_fields [OF f] assms by (simp add: wait_inv_def)
next
  case (Inr out)
  show ?thesis
  proof (cases "runStep_switch parse a out (cs\<lparr>turnCount := turnCount cs + 1\<rparr>)")
    case None
    have f: "runStep_resume parse a cs result app = runStep_finally (runStep_catch a app)"
      using Inr None by (intro runStep_resume_failed) simp
    show ?thesis
      using resume_failed_fields [OF f] assms by (simp add: wait_inv_def)
  next
    case (Some u)
    show ?thesis
      using resume_ok_fields [OF Some, of app] Inr student_wait_selector [of u]
      by (auto simp: wait_inv_def)
  qed
qed

lemma wait_inv_startSession:
  assumes "wait_inv app"
  shows "wait_inv (startSession app)"
proof (cases "topicInput app = []")
  case True
  then show ?thesis using assms by (simp add: startSession_def)
next
  case False
  let ?s = "INITIAL_STATE\<lparr>topic := topicInput app, difficulty := difficultyInput app\<rparr>"
  have "\<not> student_wait ?s"
    by (simp add: student_wait_def INITIAL_STATE_def)
  moreover have "state (startSession app) = ?s"
    using False by (simp add: startSession_def Let_def)
  ultimately show ?thesis by (simp add: wait_inv_def)
qed

lemma wait_inv_handleHumanSubmit:
  assumes "wait_inv app"
  shows "wait_inv (handleHumanSubmit app)"
proof (cases "humanInput app = []")
  case True
  then show ?thesis using assms by (simp add: handleHumanSubmit_def)
next
  case False
  show ?thesis
  proof (cases "truthy (quiz (state app)) \<and> \<not> truthy (studentAnswers (state app))")
    case True
    have "state (handleHumanSubmit app) = (state app)\<lparr>studentAnswers := Some (humanInput app)\<rparr>"
      using handleHumanSubmit_student [OF False] True by simp
    then have "\<not> student_wait (state (handleHumanSubmit app))"
      using False by (simp add: student_wait_def)
    then show ?thesis by (simp add: wait_inv_def)
  next
    case no: False
    then have d: "\<not> truthy (quiz (state app)) \<or> truthy (studentAnswers (state app))"
      by blast
    have "state (handleHumanSubmit app) = state app"
      unfolding handleHumanSubmit_supervisor_eq [OF False d] by simp
    then have "\<not> student_wait (state (handleHumanSubmit app))"
      using d by (auto simp: student_wait_def)
    then show ?thesis by (simp add: wait_inv_def)
  qed
qed

lemma wait_inv_step:
  assumes inv: "wait_inv app"
  shows "wait_inv (step parse e app)"
proof (cases e)
  case (TypeTopic t)
  then show ?thesis using inv by (simp add: wait_inv_def)
next
  case (SelectDifficulty d)
  then show ?thesis using inv by (simp add: wait_inv_def)
next
  case ClickStart
  then show ?thesis using inv by (simp add: wait_inv_startSession)
next
  case (TypeHuman t)
  then show ?thesis
    using inv by (cases "showHumanPrompt app") (simp_all add: wait_inv_def)
next
  case ClickSubmit
  then show ?thesis using inv by (simp add: wait_inv_handleHumanSubmit)
next
  case (Settle i r)
  show ?thesis
  proof (cases "i < length (inflight app)")
    case False
    then show ?thesis using Settle inv by simp
  next
    case True
    obtain a cs where p: "inflight app ! i = (a, cs)" by (cases "inflight app ! i")
    let ?app1 = "app\<lparr>inflight := take i (inflight app) @ drop (Suc i) (inflight app)\<rparr>"
    have "wait_inv ?app1" using inv by (simp add: wait_inv_def)
    then have "wait_inv (runStep_resume parse a cs (callAgent a cs r) ?app1)"
      by (rule wait_inv_resume)
    then show ?thesis using Settle True p by simp
  qed
next
  case Fire
  show ?thesis
  proof (cases "timers app")
    case Nil
    then show ?thesis using Fire inv by simp
  next
    case (Cons q ts)
    obtain a cs where q: "q = (a, cs)" by (cases q)
    show ?thesis using Fire Cons q inv by (simp add: wait_inv_def)
  qed
qed

lemma wait_inv_run: "wait_inv app \<Longrightarrow> wait_inv (run parse es app)"
  by (induction es arbitrary: app) (simp_all add: wait_inv_step)

lemma wait_inv_initial: "wait_inv initial_app"
  by (simp add: wait_inv_def student_wait_def initial_app_def INITIAL_STATE_def)

lemma prompt_shown_for_student:
  "student_wait (state (run parse es initial_app)) \<Longrightarrow>
   showHumanPrompt (run parse es initial_app)"
  using wait_inv_run [OF wait_inv_initial, of parse es] by (simp add: wait_inv_def)

subsection \<open>A failed turn\<close>

text \<open>
  When the call of a turn fails (it rejects, or the turn is the Quality-Reviewer's and
  the output does not parse), the turn appends one entry of type \<open>Error\<close> to the log and
  leaves the session state as it is, so the selector decides on it as before. If the
  turn was the selector's decision on the session state, as it is in every run whose
  turns run one at a time, the selector returns the failed agent again and the agent's
  designated field is still unset.
\<close>

lemma failed_turn_frame:
  assumes "i < length (inflight app)" and "inflight app ! i = (a, cs)"
    and "callAgent a cs r = Inl err \<or>
         (a = QUALITY_REVIEWER \<and> callAgent a cs r = Inr out \<and> parse out = None)"
  shows "state (step parse (Settle i r) app) = state app \<and>
         logs (step parse (Settle i r) app)
           = logs app @
             [\<lparr>agent = a, content = ''Execution failed.'', entry_type = Error,
               reason = None\<rparr>] \<and>
         turnCount (state (step parse (Settle i r) app)) = turnCount (state app) \<and>
         determineNextAgent (state (step parse (Settle i r) app))
           = determineNextAgent (state app) \<and>
         (state app = cs \<and> determineNextAgent cs = a \<longrightarrow>
            determineNextAgent (state (step parse (Settle i r) app)) = a \<and>
            \<not> truthy (designated_field a (state (step parse (Settle i r) app))) \<and>
            (a = QUALITY_REVIEWER \<longrightarrow>
               reviewerApproved (state (step parse (Settle i r) app)) = None)) \<and>
         (app = run parse es initial_app \<and> one_at_a_time parse es initial_app \<longrightarrow>
            determineNextAgent (state (step parse (Settle i r) app)) = a \<and>
            \<not> truthy (designated_field a (state (step parse (Settle i r) app)))) \<and>
         (state app = cs \<and> determineNextAgent cs = CONCEPT_EXPLAINER \<longrightarrow>
            \<not> truthy (explanation (state (step parse (Settle i r) app))) \<and>
            determineNextAgent (state (step parse (Settle i r) app)) = CONCEPT_EXPLAINER)"
proof -
  let ?app' = "step parse (Settle i r) app"
  let ?app1 = "app\<lparr>inflight := take i (inflight app) @ drop (Suc i) (inflight app)\<rparr>"
  have fails: "runStep_resume parse a cs (callAgent a cs r) ?app1
                 = runStep_finally (runStep_catch a ?app1)"
    using assms(3) by (intro runStep_resume_failed) auto
  have st: "?app' = runStep_finally (runStep_catch a ?app1)"
    using assms(1,2) fails by simp
  have s: "state ?app' = state app"
    unfolding st by simp
  have l: "logs ?app' = logs app @
      [\<lparr>agent = a, content = ''Execution failed.'', entry_type = Error, reason = None\<rparr>]"
    unfolding st by (simp add: runStep_catch_def failed_entry_def)
  have e: "\<not> truthy (explanation cs)" if "determineNextAgent cs = CONCEPT_EXPLAINER"
    using that by (auto simp: determineNextAgent_def split: if_splits)
  have d: "\<not> truthy (designated_field a cs)" if "determineNextAgent cs = a"
    using that by (cases a) (auto simp: determineNextAgent_def split: if_splits)
  have q: "reviewerApproved cs = None" if "determineNextAgent cs = QUALITY_REVIEWER"
    using that by (auto simp: determineNextAgent_def split: if_splits)
  have mem: "(a, cs) \<in> set (pending app)"
    using nth_mem [OF assms(1)] assms(2) by (simp add: pending_def)
  have cur: "state app = cs \<and> determineNextAgent cs = a"
    if run: "app = run parse es initial_app" and one: "one_at_a_time parse es initial_app"
  proof
    show "state app = cs"
      using pending_turn_is_current [OF one, of a cs] mem unfolding run by simp
    show "determineNextAgent cs = a"
      using pending_turn_is_decided [of a cs parse es] mem unfolding run by simp
  qed
  have c1: "state ?app' = state app" by (rule s)
  have c2: "logs ?app' = logs app @
      [\<lparr>agent = a, content = ''Execution failed.'', entry_type = Error, reason = None\<rparr>]"
    by (rule l)
  have c3: "turnCount (state ?app') = turnCount (state app)" by (simp only: s)
  have c4: "determineNextAgent (state ?app') = determineNextAgent (state app)" by (simp only: s)
  have c5: "determineNextAgent (state ?app') = a \<and>
            \<not> truthy (designated_field a (state ?app')) \<and>
            (a = QUALITY_REVIEWER \<longrightarrow> reviewerApproved (state ?app') = None)"
    if "state app = cs \<and> determineNextAgent cs = a"
    using that d q unfolding s by blast
  have c6: "determineNextAgent (state ?app') = a \<and> \<not> truthy (designated_field a (state ?app'))"
    if "app = run parse es initial_app \<and> one_at_a_time parse es initial_app"
    using c5 cur that by blast
  have c7: "\<not> truthy (explanation (state ?app')) \<and>
            determineNextAgent (state ?app') = CONCEPT_EXPLAINER"
    if "state app = cs \<and> determineNextAgent cs = CONCEPT_EXPLAINER"
    using that e unfolding s by blast
  show ?thesis
    using c1 c2 c3 c4 c5 c6 c7 by blast
qed

subsection \<open>The concrete runs, evaluated\<close>

lemma app_explaining_facts:
  "inflight app_explaining =
     [(CONCEPT_EXPLAINER,
       INITIAL_STATE\<lparr>topic := ''Photosynthesis'', lessonPlan := Some ''plan'', turnCount := 1\<rparr>)]"
  "state app_explaining =
     INITIAL_STATE\<lparr>topic := ''Photosynthesis'', lessonPlan := Some ''plan'', turnCount := 1\<rparr>"
  "\<not> showHumanPrompt app_explaining"
  by code_simp+

lemma app_quiz_prompt_facts:
  "state app_quiz_prompt = s_quiz" "showHumanPrompt app_quiz_prompt"
  "inflight app_quiz_prompt = []" "timers app_quiz_prompt = []"
  by code_simp+

lemma app_reviewing_facts:
  "inflight app_reviewing =
     [(QUALITY_REVIEWER,
       s_rejected\<lparr>reviewerApproved := None, reviewerComments := None, confidence := 0,
                   turnCount := 5\<rparr>)]"
  "state app_reviewing =
     s_rejected\<lparr>reviewerApproved := None, reviewerComments := None, confidence := 0,
                 turnCount := 5\<rparr>"
  by code_simp+

lemma app_supervising_facts:
  "showHumanPrompt app_supervising" "humanInput app_supervising = ''Please revise.''"
  "state app_supervising = s_rejected" "inflight app_supervising = []"
  by code_simp+

lemma app_summarising_inflight:
  "inflight app_summarising = [(HUMAN_APPROVAL, s_rejected)]"
  by code_simp

text \<open>
  The ordinary session has one continuation at a time; the run \<open>overrun\<close> has not.
\<close>

lemma session_to_review_one_at_a_time:
  "one_at_a_time parse_review session_to_review initial_app"
  by code_simp

lemma overrun_not_one_at_a_time: "\<not> one_at_a_time parse_review overrun initial_app"
  by code_simp

text \<open>
  Three moments of the run \<open>overrun\<close>: after the second click on start, two turns are
  pending; before the last submission the prompt is shown on a state that has reached
  the cap, for which the selector decides \<open>END\<close>; and the submission starts a turn of
  \<open>END\<close>.
\<close>

lemma overrun_two_turns_pending:
  "map fst (pending (run parse_review (take 5 overrun) initial_app))
     = [CURRICULUM_PLANNER, CONCEPT_EXPLAINER]"
  by code_simp

lemma overrun_last_submit:
  "turnCount (state (run parse_review (take 48 overrun) initial_app)) = 15"
  "showHumanPrompt (run parse_review (take 48 overrun) initial_app)"
  "determineNextAgent (state (run parse_review (take 48 overrun) initial_app)) = END"
  "map fst (inflight (run parse_review (take 49 overrun) initial_app)) = [END]"
  by code_simp+

section \<open>The selector's rules\<close>

text \<open>
  C1. In every state where \<open>reviewerApproved\<close> is true and \<open>confidence < 0.8\<close>, the six
  artifact fields \<open>lessonPlan\<close>, \<open>explanation\<close>, \<open>quiz\<close>, \<open>studentAnswers\<close>,
  \<open>feedback\<close> and \<open>motivatorMessage\<close> are set and \<open>turnCount < maxTurns\<close>, the selector
  returns \<open>END\<close>: none of the rules before the last one matches. So it does for
  \<open>confidence = 0.5\<close>. A field is set when it passes the source's own test, that is,
  when it holds a non-empty string.
\<close>

theorem C1_approved_low_confidence_terminates:
  "reviewerApproved s = Some True \<Longrightarrow> confidence s < 0.8 \<Longrightarrow>
   truthy (lessonPlan s) \<Longrightarrow> truthy (explanation s) \<Longrightarrow> truthy (quiz s) \<Longrightarrow>
   truthy (studentAnswers s) \<Longrightarrow> truthy (feedback s) \<Longrightarrow> truthy (motivatorMessage s) \<Longrightarrow>
   turnCount s < maxTurns s \<Longrightarrow>
   determineNextAgent s = END \<and>
   determineNextAgent (s\<lparr>confidence := 0.5\<rparr>) = END"
  by (simp add: determineNextAgent_def)

theorem C1_approved_low_confidence_terminates_witness:
  "reviewerApproved (s_rejected\<lparr>reviewerApproved := Some True, confidence := 0.7\<rparr>) = Some True \<and>
   confidence (s_rejected\<lparr>reviewerApproved := Some True, confidence := 0.7\<rparr>) < 0.8 \<and>
   truthy (lessonPlan (s_rejected\<lparr>reviewerApproved := Some True, confidence := 0.7\<rparr>)) \<and>
   truthy (explanation (s_rejected\<lparr>reviewerApproved := Some True, confidence := 0.7\<rparr>)) \<and>
   truthy (quiz (s_rejected\<lparr>reviewerApproved := Some True, confidence := 0.7\<rparr>)) \<and>
   truthy (studentAnswers (s_rejected\<lparr>reviewerApproved := Some True, confidence := 0.7\<rparr>)) \<and>
   truthy (feedback (s_rejected\<lparr>reviewerApproved := Some True, confidence := 0.7\<rparr>)) \<and>
   truthy (motivatorMessage (s_rejected\<lparr>reviewerApproved := Some True, confidence := 0.7\<rparr>)) \<and>
   turnCount (s_rejected\<lparr>reviewerApproved := Some True, confidence := 0.7\<rparr>)
     < maxTurns (s_rejected\<lparr>reviewerApproved := Some True, confidence := 0.7\<rparr>) \<and>
   determineNextAgent (s_rejected\<lparr>reviewerApproved := Some True, confidence := 0.7\<rparr>) = END \<and>
   determineNextAgent (s_rejected\<lparr>reviewerApproved := Some True, confidence := 0.5\<rparr>) = END"
  using C1_approved_low_confidence_terminates
    [of "s_rejected\<lparr>reviewerApproved := Some True, confidence := 0.7\<rparr>"]
  by (simp add: s_rejected_def s_quiz_def INITIAL_STATE_def)

text \<open>
  C2. For every state with \<open>turnCount \<ge> maxTurns\<close> the selector returns \<open>END\<close> (the
  decision TERMINATE), whatever the other fields hold: rule 1 comes first.
\<close>

theorem C2_turn_cap_terminates:
  "turnCount s \<ge> maxTurns s \<Longrightarrow> determineNextAgent s = END"
  by (simp add: determineNextAgent_def)

theorem C2_turn_cap_terminates_witness:
  "turnCount (s_rejected\<lparr>turnCount := 15\<rparr>) \<ge> maxTurns (s_rejected\<lparr>turnCount := 15\<rparr>) \<and>
   determineNextAgent (s_rejected\<lparr>turnCount := 15\<rparr>) = END \<and>
   turnCount (INITIAL_STATE\<lparr>turnCount := 16\<rparr>) \<ge> maxTurns (INITIAL_STATE\<lparr>turnCount := 16\<rparr>) \<and>
   determineNextAgent (INITIAL_STATE\<lparr>turnCount := 16\<rparr>) = END"
  using C2_turn_cap_terminates [of "s_rejected\<lparr>turnCount := 15\<rparr>"]
    C2_turn_cap_terminates [of "INITIAL_STATE\<lparr>turnCount := 16\<rparr>"]
  by (simp add: s_rejected_def s_quiz_def INITIAL_STATE_def)

text \<open>
  C6. In every state with \<open>quiz\<close> set and \<open>studentAnswers\<close> unset (\<open>lessonPlan\<close> and
  \<open>explanation\<close> set, \<open>turnCount < maxTurns\<close>) the selector returns \<open>HUMAN_APPROVAL\<close>
  (the decision AWAIT_HUMAN) and the context hint is the student prompt. In every state
  with \<open>motivatorMessage\<close> set and \<open>reviewerApproved = false\<close> (the other artifact fields
  set, \<open>turnCount < maxTurns\<close>) the selector returns \<open>HUMAN_APPROVAL\<close> and the context
  hint is the supervisor prompt. The two prompts differ. Set and unset are the source's
  test of the field, as in C1.
\<close>

theorem C6_human_routing:
  "(turnCount s < maxTurns s \<and> truthy (lessonPlan s) \<and> truthy (explanation s) \<and>
    truthy (quiz s) \<and> \<not> truthy (studentAnswers s) \<longrightarrow>
      determineNextAgent s = HUMAN_APPROVAL \<and> contextHint s = student_prompt) \<and>
   (turnCount s < maxTurns s \<and> truthy (lessonPlan s) \<and> truthy (explanation s) \<and>
    truthy (quiz s) \<and> truthy (studentAnswers s) \<and> truthy (feedback s) \<and>
    truthy (motivatorMessage s) \<and> reviewerApproved s = Some False \<longrightarrow>
      determineNextAgent s = HUMAN_APPROVAL \<and> contextHint s = supervisor_prompt) \<and>
   student_prompt \<noteq> supervisor_prompt"
  by (simp add: determineNextAgent_def contextHint_def student_prompt_def supervisor_prompt_def)

theorem C6_human_routing_witness:
  "(turnCount s_quiz < maxTurns s_quiz \<and> truthy (lessonPlan s_quiz) \<and>
    truthy (explanation s_quiz) \<and> truthy (quiz s_quiz) \<and> \<not> truthy (studentAnswers s_quiz)) \<and>
   determineNextAgent s_quiz = HUMAN_APPROVAL \<and> contextHint s_quiz = student_prompt \<and>
   (turnCount s_rejected < maxTurns s_rejected \<and> truthy (lessonPlan s_rejected) \<and>
    truthy (explanation s_rejected) \<and> truthy (quiz s_rejected) \<and>
    truthy (studentAnswers s_rejected) \<and> truthy (feedback s_rejected) \<and>
    truthy (motivatorMessage s_rejected) \<and> reviewerApproved s_rejected = Some False) \<and>
   determineNextAgent s_rejected = HUMAN_APPROVAL \<and> contextHint s_rejected = supervisor_prompt"
  using C6_human_routing [of s_quiz] C6_human_routing [of s_rejected]
  by (simp add: s_rejected_def s_quiz_def INITIAL_STATE_def)

section \<open>Turns\<close>

text \<open>
  C8. A successful turn of the Curriculum-Planner, the Concept-Explainer, the
  Quiz-Generator, the Feedback-Analyzer or the Motivator stores the state the turn was
  started on with \<open>turnCount\<close> incremented and the output in the agent's one field
  (\<open>lessonPlan\<close>, \<open>explanation\<close>, \<open>quiz\<close>, \<open>feedback\<close>, \<open>motivatorMessage\<close>): every other
  field is as it was. A successful turn of the Quality-Reviewer, whose output parses to
  a judgment, stores \<open>reviewerApproved\<close>, \<open>reviewerComments\<close> and \<open>confidence\<close> from the
  judgment in the same single update, and every other field but \<open>turnCount\<close> is as it
  was.
\<close>

theorem C8_designated_fields:
  "state (runStep_resume parse CURRICULUM_PLANNER cs (Inr out) app)
     = cs\<lparr>turnCount := turnCount cs + 1, lessonPlan := Some out\<rparr> \<and>
   state (runStep_resume parse CONCEPT_EXPLAINER cs (Inr out) app)
     = cs\<lparr>turnCount := turnCount cs + 1, explanation := Some out\<rparr> \<and>
   state (runStep_resume parse QUIZ_GENERATOR cs (Inr out) app)
     = cs\<lparr>turnCount := turnCount cs + 1, quiz := Some out\<rparr> \<and>
   state (runStep_resume parse FEEDBACK_ANALYZER cs (Inr out) app)
     = cs\<lparr>turnCount := turnCount cs + 1, feedback := Some out\<rparr> \<and>
   state (runStep_resume parse MOTIVATOR cs (Inr out) app)
     = cs\<lparr>turnCount := turnCount cs + 1, motivatorMessage := Some out\<rparr> \<and>
   (parse out = Some review \<longrightarrow>
      state (runStep_resume parse QUALITY_REVIEWER cs (Inr out) app)
        = cs\<lparr>turnCount := turnCount cs + 1,
              reviewerApproved := approved review,
              reviewerComments := comments review,
              confidence := review_confidence review\<rparr>)"
  by (simp add: runStep_resume_ok)

theorem C8_designated_fields_witness:
  "parse_review review_json
     = Some \<lparr>approved = Some False, comments = Some ''The quiz does not match the plan.'',
             review_confidence = 0.4\<rparr> \<and>
   state (runStep_resume parse_review QUALITY_REVIEWER
            (s_rejected\<lparr>reviewerApproved := None, reviewerComments := None, confidence := 0,
                        turnCount := 5\<rparr>)
            (Inr review_json) app_reviewing)
     = s_rejected"
proof -
  have p: "parse_review review_json
     = Some \<lparr>approved = Some False, comments = Some ''The quiz does not match the plan.'',
             review_confidence = 0.4\<rparr>"
    by (simp add: parse_review_def)
  show ?thesis
    using p C8_designated_fields [of parse_review
        "s_rejected\<lparr>reviewerApproved := None, reviewerComments := None, confidence := 0,
                    turnCount := 5\<rparr>" review_json app_reviewing
        "\<lparr>approved = Some False, comments = Some ''The quiz does not match the plan.'',
          review_confidence = 0.4\<rparr>"]
    by (simp add: s_rejected_def s_quiz_def INITIAL_STATE_def)
qed

text \<open>
  C10. \<open>runStep\<close> started with an agent that has no case in the switch (\<open>HUMAN_APPROVAL\<close>,
  \<open>SUPERVISOR\<close>, \<open>END\<close>) issues the invoker call like for any other agent, and when that
  call returns, the state stored is the one the turn was started on with \<open>turnCount\<close>
  incremented by one and every other field unchanged. Such a turn is started by
  \<open>handleHumanSubmit\<close>, which starts the turn of whatever the selector decides.
\<close>

theorem C10_agents_without_case:
  assumes "a = HUMAN_APPROVAL \<or> a = SUPERVISOR \<or> a = END"
    and "i < length (inflight app)" and "inflight app ! i = (a, cs)"
  shows "inflight (runStep_begin a cs app0) = inflight app0 @ [(a, cs)] \<and>
         state (step parse (Settle i (Returns t)) app) = cs\<lparr>turnCount := turnCount cs + 1\<rparr> \<and>
         (humanInput app0 \<noteq> [] \<longrightarrow>
            inflight (handleHumanSubmit app0)
              = inflight app0 @
                [(determineNextAgent (state (handleHumanSubmit app0)),
                  state (handleHumanSubmit app0))])"
proof -
  obtain out where out: "callAgent a cs (Returns t) = Inr out"
    using callAgent_Returns by blast
  have sw: "runStep_switch parse a out (cs\<lparr>turnCount := turnCount cs + 1\<rparr>)
              = Some (cs\<lparr>turnCount := turnCount cs + 1\<rparr>)"
    using assms(1) by auto
  have "state (step parse (Settle i (Returns t)) app) = cs\<lparr>turnCount := turnCount cs + 1\<rparr>"
    using assms(2,3) out runStep_resume_ok [OF sw] by simp
  then show ?thesis
    by (simp add: handleHumanSubmit_inflight)
qed

theorem C10_agents_without_case_witness:
  "0 < length (inflight app_summarising) \<and>
   inflight app_summarising ! 0 = (HUMAN_APPROVAL, s_rejected) \<and>
   state (step parse_review (Settle 0 (says ''Summary for the human.'')) app_summarising)
     = s_rejected\<lparr>turnCount := 7\<rparr> \<and>
   humanInput app_supervising \<noteq> [] \<and>
   inflight (handleHumanSubmit app_supervising)
     = inflight app_supervising @
       [(determineNextAgent (state (handleHumanSubmit app_supervising)),
         state (handleHumanSubmit app_supervising))]"
proof -
  have h2: "0 < length (inflight app_summarising)"
    and h3: "inflight app_summarising ! 0 = (HUMAN_APPROVAL, s_rejected)"
    by (simp_all add: app_summarising_inflight)
  have h4: "humanInput app_supervising \<noteq> []"
    by (simp add: app_supervising_facts)
  have tc: "turnCount s_rejected = 6"
    by (simp add: s_rejected_def)
  show ?thesis
    using h2 h3 h4 tc
      C10_agents_without_case [OF disjI1 [OF refl] h2 h3, of app_supervising parse_review
        "Some ''Summary for the human.''"]
    by (simp add: says_def)
qed

text \<open>
  C4. The first part of the claim holds: a failed turn appends an error entry and leaves
  the session state as it is (\<open>failed_turn_frame\<close>). The last part does not hold of the
  program. In \<open>app_restarted\<close> the explainer's turn, the selector's decision on the
  state it was started on, fails: the error entry is appended, the session state is
  unchanged and its \<open>explanation\<close> is unset, but the selector on it returns
  \<open>CURRICULUM_PLANNER\<close>, not \<open>CONCEPT_EXPLAINER\<close>, the session state being that of the
  session started in the meantime. In \<open>app_restarted_later\<close> the planner's turn fails
  while the session state holds a plan: the designated field of the failed agent is set
  and the selector returns \<open>QUIZ_GENERATOR\<close>.
\<close>

theorem C4_failed_turn_of_other_session:
  "inflight app_restarted ! 1 =
     (CONCEPT_EXPLAINER,
      INITIAL_STATE\<lparr>topic := ''Photosynthesis'', lessonPlan := Some ''plan'', turnCount := 1\<rparr>) \<and>
   determineNextAgent
     (INITIAL_STATE\<lparr>topic := ''Photosynthesis'', lessonPlan := Some ''plan'', turnCount := 1\<rparr>)
     = CONCEPT_EXPLAINER \<and>
   callAgent CONCEPT_EXPLAINER
     (INITIAL_STATE\<lparr>topic := ''Photosynthesis'', lessonPlan := Some ''plan'', turnCount := 1\<rparr>)
     Throws = Inl GenerateContentError \<and>
   logs (step parse_review (Settle 1 Throws) app_restarted)
     = logs app_restarted @
       [\<lparr>agent = CONCEPT_EXPLAINER, content = ''Execution failed.'', entry_type = Error,
         reason = None\<rparr>] \<and>
   state (step parse_review (Settle 1 Throws) app_restarted) = state app_restarted \<and>
   explanation (state (step parse_review (Settle 1 Throws) app_restarted)) = None \<and>
   determineNextAgent (state (step parse_review (Settle 1 Throws) app_restarted))
     = CURRICULUM_PLANNER \<and>
   inflight app_restarted_later ! 0
     = (CURRICULUM_PLANNER, INITIAL_STATE\<lparr>topic := ''Photosynthesis''\<rparr>) \<and>
   state (step parse_review (Settle 0 Throws) app_restarted_later) = state app_restarted_later \<and>
   lessonPlan (state (step parse_review (Settle 0 Throws) app_restarted_later)) = Some ''plan'' \<and>
   determineNextAgent (state (step parse_review (Settle 0 Throws) app_restarted_later))
     = QUIZ_GENERATOR"
  by code_simp

text \<open>
  C3. The first half of the claim holds: a successful turn stores a state whose
  \<open>turnCount\<close> is that of the state it was started on plus one
  (\<open>successful_turn_increments\<close>). The second half does not hold of the program: in the
  run \<open>overrun\<close>, made of clicks on the start button, submissions of human input, and
  calls that all succeed, the session state ends with \<open>turnCount = 16\<close> while
  \<open>maxTurns = 15\<close>. The last submission finds a state with \<open>turnCount = maxTurns\<close>, the
  selector decides \<open>END\<close>, and \<open>handleHumanSubmit\<close> runs a turn of \<open>END\<close>. The run
  has two sessions going on side by side; in a run whose clicks come only while nothing
  is pending, \<open>turnCount\<close> stays within \<open>maxTurns\<close> (\<open>one_at_a_time_bound\<close>).
\<close>

theorem C3_turn_cap_overrun:
  "turnCount (state (run parse_review overrun initial_app)) = 16 \<and>
   maxTurns (state (run parse_review overrun initial_app)) = 15"
  by code_simp

section \<open>Human input\<close>

text \<open>
  C5. In every state that a run of the application reaches with the pending-human-input
  indicator not set, submitting a text, that is typing it and clicking submit, changes
  neither the session state nor the log, nor anything else of the component: the input
  area and the submit button exist only while the indicator is set. In such a state the
  input text is empty, and \<open>handleHumanSubmit\<close> itself returns at once.
\<close>

theorem C5_unsuspended_submit_is_noop:
  assumes "app = run parse es initial_app" and "\<not> showHumanPrompt app"
  shows "run parse [TypeHuman t, ClickSubmit] app = app \<and>
         state (run parse [TypeHuman t, ClickSubmit] app) = state app \<and>
         logs (run parse [TypeHuman t, ClickSubmit] app) = logs app \<and>
         humanInput app = [] \<and> handleHumanSubmit app = app"
proof -
  have "prompt_inv app"
    unfolding assms(1) by (rule prompt_inv_run [OF prompt_inv_initial])
  then have empty: "humanInput app = []"
    using assms(2) by (simp add: prompt_inv_def)
  then have noop: "handleHumanSubmit app = app"
    by (simp add: handleHumanSubmit_def)
  have ev: "run parse [TypeHuman t, ClickSubmit] app = app"
    using assms(2) by simp
  show ?thesis
    using empty noop ev by simp
qed

theorem C5_unsuspended_submit_is_noop_witness:
  "app_explaining = run parse_review (take 4 session_to_review) initial_app \<and>
   \<not> showHumanPrompt app_explaining \<and>
   run parse_review [TypeHuman ''B, A, C'', ClickSubmit] app_explaining = app_explaining \<and>
   state (run parse_review [TypeHuman ''B, A, C'', ClickSubmit] app_explaining)
     = state app_explaining \<and>
   logs (run parse_review [TypeHuman ''B, A, C'', ClickSubmit] app_explaining)
     = logs app_explaining \<and>
   handleHumanSubmit app_explaining = app_explaining"
proof -
  have h1: "app_explaining = run parse_review (take 4 session_to_review) initial_app"
    by (simp only: app_explaining_def)
  have h2: "\<not> showHumanPrompt app_explaining"
    by (simp add: app_explaining_facts)
  note main = C5_unsuspended_submit_is_noop [OF h1 h2, of "''B, A, C''"]
  show ?thesis
    using h1 h2 main by blast
qed

text \<open>
  C7. In every state that a run of the application reaches with \<open>lessonPlan\<close>,
  \<open>explanation\<close> and \<open>quiz\<close> set, \<open>studentAnswers\<close> unset and \<open>turnCount < maxTurns\<close>,
  the selector returns \<open>HUMAN_APPROVAL\<close>, the context hint is the student prompt and the
  prompt is shown; submitting a non-empty text \<open>t\<close>, that is typing it and clicking
  submit, changes the state in \<open>studentAnswers\<close> only, which becomes \<open>t\<close>, and the
  selector on the updated state returns \<open>FEEDBACK_ANALYZER\<close>.
\<close>

theorem C7_student_answer_then_feedback:
  assumes run: "app = run parse es initial_app"
    and tc: "turnCount (state app) < maxTurns (state app)"
    and lp: "truthy (lessonPlan (state app))" and ex: "truthy (explanation (state app))"
    and qz: "truthy (quiz (state app))" and na: "\<not> truthy (studentAnswers (state app))"
    and t: "t \<noteq> []"
  shows "determineNextAgent (state app) = HUMAN_APPROVAL \<and>
         contextHint (state app) = student_prompt \<and>
         showHumanPrompt app \<and>
         state (run parse [TypeHuman t, ClickSubmit] app)
           = (state app)\<lparr>studentAnswers := Some t\<rparr> \<and>
         studentAnswers (state (run parse [TypeHuman t, ClickSubmit] app)) = Some t \<and>
         determineNextAgent (state (run parse [TypeHuman t, ClickSubmit] app))
           = FEEDBACK_ANALYZER"
proof -
  have sel: "determineNextAgent (state app) = HUMAN_APPROVAL"
    using tc lp ex qz na by (simp add: determineNextAgent_def)
  have hint: "contextHint (state app) = student_prompt"
    using qz na by (simp add: contextHint_def)
  have "student_wait (state app)"
    using tc lp ex qz na by (simp add: student_wait_def)
  then have shown: "showHumanPrompt app"
    unfolding run by (rule prompt_shown_for_student)
  have nf: "\<not> truthy (feedback (state app))"
    using feedback_after_answers [of parse es] na unfolding run by blast
  have ev: "run parse [TypeHuman t, ClickSubmit] app = handleHumanSubmit (app\<lparr>humanInput := t\<rparr>)"
    using shown by simp
  have upd: "state (handleHumanSubmit (app\<lparr>humanInput := t\<rparr>))
               = (state app)\<lparr>studentAnswers := Some t\<rparr>"
    using t qz na handleHumanSubmit_student [of "app\<lparr>humanInput := t\<rparr>"] by simp
  have nxt: "determineNextAgent ((state app)\<lparr>studentAnswers := Some t\<rparr>) = FEEDBACK_ANALYZER"
    using tc lp ex qz nf t by (simp add: determineNextAgent_def)
  show ?thesis
    using sel hint shown nxt unfolding ev upd by simp
qed

theorem C7_student_answer_then_feedback_witness:
  "app_quiz_prompt = run parse_review (take 7 session_to_review) initial_app \<and>
   turnCount (state app_quiz_prompt) < maxTurns (state app_quiz_prompt) \<and>
   truthy (lessonPlan (state app_quiz_prompt)) \<and>
   truthy (explanation (state app_quiz_prompt)) \<and>
   truthy (quiz (state app_quiz_prompt)) \<and>
   \<not> truthy (studentAnswers (state app_quiz_prompt)) \<and> ''B, A, C'' \<noteq> [] \<and>
   determineNextAgent (state app_quiz_prompt) = HUMAN_APPROVAL \<and>
   contextHint (state app_quiz_prompt) = student_prompt \<and>
   studentAnswers (state (run parse_review [TypeHuman ''B, A, C'', ClickSubmit] app_quiz_prompt))
     = Some ''B, A, C'' \<and>
   determineNextAgent
     (state (run parse_review [TypeHuman ''B, A, C'', ClickSubmit] app_quiz_prompt))
     = FEEDBACK_ANALYZER"
proof -
  have r: "app_quiz_prompt = run parse_review (take 7 session_to_review) initial_app"
    by (simp only: app_quiz_prompt_def)
  have hyps: "turnCount (state app_quiz_prompt) < maxTurns (state app_quiz_prompt)"
    "truthy (lessonPlan (state app_quiz_prompt))" "truthy (explanation (state app_quiz_prompt))"
    "truthy (quiz (state app_quiz_prompt))" "\<not> truthy (studentAnswers (state app_quiz_prompt))"
    "''B, A, C'' \<noteq> []"
    by (simp_all add: app_quiz_prompt_facts s_quiz_def INITIAL_STATE_def)
  note main = C7_student_answer_then_feedback [OF r hyps]
  show ?thesis
    using r hyps main by blast
qed

text \<open>
  C9. A submission made while the prompt is shown, with a non-empty text, when the
  student-answer condition does not hold (\<open>quiz\<close> unset or \<open>studentAnswers\<close> set),
  leaves the session state exactly as it is. The handler appends the entry of the
  human's feedback to the log, and starts the turn of the selector's decision on that
  same state, which appends the turn's starting entry.
\<close>

theorem C9_supervisor_submit_frame:
  assumes "showHumanPrompt app" and "humanInput app \<noteq> []"
    and "\<not> truthy (quiz (state app)) \<or> truthy (studentAnswers (state app))"
  shows "state (step parse ClickSubmit app) = state app \<and>
         logs (step parse ClickSubmit app)
           = logs app @
             [\<lparr>agent = HUMAN_APPROVAL, content = ''Human feedback: '' @ humanInput app,
               entry_type = Output, reason = None\<rparr>,
              starting_entry (determineNextAgent (state app))] \<and>
         inflight (step parse ClickSubmit app)
           = inflight app @ [(determineNextAgent (state app), state app)]"
  using assms by (auto simp: handleHumanSubmit_def Let_def addLog_def runStep_begin_def)

theorem C9_supervisor_submit_frame_witness:
  "showHumanPrompt app_supervising \<and> humanInput app_supervising \<noteq> [] \<and>
   truthy (studentAnswers (state app_supervising)) \<and>
   state (step parse_review ClickSubmit app_supervising) = s_rejected \<and>
   inflight (step parse_review ClickSubmit app_supervising) = [(HUMAN_APPROVAL, s_rejected)]"
proof -
  have h1: "showHumanPrompt app_supervising" and h2: "humanInput app_supervising \<noteq> []"
    by (simp_all add: app_supervising_facts)
  have h3: "truthy (studentAnswers (state app_supervising))"
    by (simp add: app_supervising_facts s_rejected_def)
  have sel: "determineNextAgent s_rejected = HUMAN_APPROVAL"
    by (simp add: determineNextAgent_def s_rejected_def s_quiz_def INITIAL_STATE_def)
  show ?thesis
    using h1 h2 h3 sel C9_supervisor_submit_frame [OF h1 h2 disjI2 [OF h3], of parse_review]
    by (simp add: app_supervising_facts)
qed

end
